theory Spec2Isabelle
  imports Main "HOL-Library.Multiset"
begin

section \<open>Strings\<close>

text \<open>
  Source strings are modelled as \<^typ>\<open>string\<close>: one \<^typ>\<open>char\<close> per code unit, for
  code units up to 255. The normaliser deletes every character that is not \<open>+\<close> or an
  ASCII digit before it looks at the text, and \<open>\d\<close> in a JavaScript regular expression is
  \<open>[0-9]\<close>, so characters beyond this range behave like any other deleted character.
\<close>

definition isDigit :: "char \<Rightarrow> bool" where
  "isDigit c = (c \<in> set ''0123456789'')"

text \<open>\<open>/^\d+$/.test(s)\<close>: at least one character, all of them digits.\<close>

definition allDigits :: "string \<Rightarrow> bool" where
  "allDigits s = (s \<noteq> [] \<and> list_all isDigit s)"

text \<open>The white space and line terminators that \<open>String.prototype.trim\<close> removes
  (tab, LF, VT, FF, CR, space, no-break space).\<close>

definition isWhiteSpace :: "char \<Rightarrow> bool" where
  "isWhiteSpace c = (c \<in> set [CHR 0x09, CHR 0x0A, CHR 0x0B, CHR 0x0C, CHR 0x0D, CHR 0x20, CHR 0xA0])"

definition trim :: "string \<Rightarrow> string" where
  "trim s = rev (dropWhile isWhiteSpace (rev (dropWhile isWhiteSpace s)))"

definition startsWith :: "string \<Rightarrow> string \<Rightarrow> bool" where
  "startsWith s p = (take (length p) s = p)"

section \<open>Phone normaliser (phoneNormaliser.ts)\<close>

record NormalisedPhone =
  raw :: string
  canonical :: "string option"
  valid :: bool
  reason :: "string option"

datatype PhoneFormat = e164 | local0

definition MIN_LEN :: nat where "MIN_LEN = 10"
definition MAX_LEN :: nat where "MAX_LEN = 15"

definition build :: "string \<Rightarrow> string option \<Rightarrow> bool \<Rightarrow> string option \<Rightarrow> NormalisedPhone" where
  "build r c v rs = \<lparr>raw = r, canonical = c, valid = v, reason = rs\<rparr>"

text \<open>\<open>raw.replace(/[^+0-9]/g, "")\<close>\<close>

definition stripNonDigit :: "string \<Rightarrow> string" where
  "stripNonDigit s = filter (\<lambda>c. c = CHR ''+'' \<or> isDigit c) s"

text \<open>\<open>if (cleaned.startsWith("+")) cleaned = "+" + cleaned.replace(/^\++/, "")\<close>\<close>

definition collapsePlus :: "string \<Rightarrow> string" where
  "collapsePlus cleaned =
     (if startsWith cleaned ''+'' then ''+'' @ dropWhile (\<lambda>c. c = CHR ''+'') cleaned else cleaned)"

text \<open>Lines 58 to 65 of \<open>normalise\<close>: the prefix check, the length check and the
  projection into the requested format.\<close>

definition finish :: "PhoneFormat \<Rightarrow> string \<Rightarrow> string \<Rightarrow> NormalisedPhone" where
  "finish fmt r canon =
     (if \<not> startsWith canon ''+62'' then build r None False (Some ''bad_prefix'')
      else let digitsCount = length canon - 1 in
        if digitsCount < MIN_LEN \<or> digitsCount > MAX_LEN then build r None False (Some ''length'')
        else let out = (if fmt = local0 then ''0'' @ drop 3 canon else canon)
             in build r (Some out) True None)"

definition normalise :: "PhoneFormat \<Rightarrow> string \<Rightarrow> NormalisedPhone" where
  "normalise fmt rawInput =
     (let r = trim rawInput in
      if r = [] then build r None False (Some ''empty'')
      else let cleaned = collapsePlus (stripNonDigit r) in
        if startsWith cleaned ''+62'' then
          (let digits = drop 1 cleaned in
           if allDigits digits then finish fmt r (''+'' @ digits)
           else build r None False (Some ''non_digit''))
        else if startsWith cleaned ''62'' then
          (let rest = drop 2 cleaned in
           if allDigits rest then finish fmt r (''+62'' @ rest)
           else build r None False (Some ''non_digit''))
        else if startsWith cleaned ''0'' then
          (let rest = drop 1 cleaned in
           if allDigits rest then finish fmt r (''+62'' @ rest)
           else build r None False (Some ''non_digit''))
        else
          (if \<not> allDigits cleaned then build r None False (Some ''non_digit'')
           else if length cleaned \<ge> 9 \<and> length cleaned \<le> 13 then finish fmt r (''+62'' @ cleaned)
           else build r None False (Some ''length'')))"

text \<open>\<open>createDefaultPhoneNormalizer\<close>: an absent format is \<open>e164\<close>.\<close>

definition createDefaultPhoneNormalizer :: "PhoneFormat option \<Rightarrow> string \<Rightarrow> NormalisedPhone" where
  "createDefaultPhoneNormalizer format =
     normalise (case format of Some local0 \<Rightarrow> local0 | Some e164 \<Rightarrow> e164 | None \<Rightarrow> e164)"

section \<open>Domain model (domain.ts)\<close>

record SheetRow =
  lastUpdatedDate :: string
  nik :: string
  name :: string
  rawPhone :: string

record PatientIdentifier =
  id_system :: string
  id_value :: string

record PatientTelecom =
  tel_system :: string
  tel_use :: "string option"
  tel_value :: string
  tel_rank :: "int option"

text \<open>The index signature \<open>[k: string]: unknown\<close> of \<open>PatientMeta\<close> and
  \<open>PatientResource\<close> is a list of further fields (key and serialised value), which no
  operation reads.\<close>

record PatientMeta =
  versionId :: "string option"
  lastUpdated :: "string option"
  meta_other :: "(string \<times> string) list"

record PatientResource =
  resourceType :: string
  pid :: string
  identifiers :: "PatientIdentifier list option"
  telecom :: "PatientTelecom list option"
  meta :: "PatientMeta option"
  other :: "(string \<times> string) list"

record UpdateStats =
  totalRows :: nat
  validUpdated :: nat
  validUnchanged :: nat
  invalidFormat :: nat
  missingPatient :: nat

definition NIK_SYSTEM :: string where
  "NIK_SYSTEM = ''https://fhir.kemkes.go.id/id/nik''"

section \<open>Numbers as text\<close>

definition digitChar :: "nat \<Rightarrow> char" where
  "digitChar d = (''0123456789'' ! d)"

text \<open>\<open>Number.prototype.toString\<close> on a non-negative integer.\<close>

fun toString :: "nat \<Rightarrow> string" where
  "toString n = (if n < 10 then [digitChar n] else toString (n div 10) @ [digitChar (n mod 10)])"

declare toString.simps [simp del]

definition digitValue :: "char \<Rightarrow> nat" where
  "digitValue c = of_char c - 48"

text \<open>\<open>parseInt(s, 10)\<close> on a string of digits (every caller has checked that).\<close>

definition parseInt :: "string \<Rightarrow> nat" where
  "parseInt s = foldl (\<lambda>a c. 10 * a + digitValue c) 0 s"

definition padStart :: "nat \<Rightarrow> char \<Rightarrow> string \<Rightarrow> string" where
  "padStart k c s = replicate (k - length s) c @ s"

section \<open>Record store (infrastructure.ts)\<close>

text \<open>
  What a mutating call reads from outside the program: the local clock (\<open>new Date()\<close>)
  and \<open>Math.floor(Math.random() * 1000)\<close> at the \<open>k\<close>-th call of
  \<open>buildLastUpdatedTimestamp\<close>, and \<open>(parseInt(suffix, 10) + 1).toString()\<close> for a
  suffix of \<open>2^53\<close> or more, where the source computes in floating point and this
  model does not follow it.
\<close>

record Instant =
  fullYear :: nat
  month :: nat
  date :: nat
  hours :: nat
  minutes :: nat
  seconds :: nat
  milliseconds :: nat
  timezoneOffset :: int

record Env =
  now :: "nat \<Rightarrow> Instant"
  random1000 :: "nat \<Rightarrow> nat"
  bigNumber :: "string \<Rightarrow> string"

definition buildLastUpdatedTimestamp :: "Instant \<Rightarrow> nat \<Rightarrow> string" where
  "buildLastUpdatedTimestamp d rnd =
     (let offsetTotalMinutes = - timezoneOffset d;
          sign = (if offsetTotalMinutes \<ge> 0 then ''+'' else ''-'');
          absMinutes = nat \<bar>offsetTotalMinutes\<bar>;
          offHours = padStart 2 CHR ''0'' (toString (absMinutes div 60));
          offMins = padStart 2 CHR ''0'' (toString (absMinutes mod 60));
          ms = padStart 3 CHR ''0'' (toString (milliseconds d));
          pseudoMicros = ms @ padStart 3 CHR ''0'' (toString (rnd mod 1000))
      in toString (fullYear d) @ ''-'' @ padStart 2 CHR ''0'' (toString (month d + 1)) @ ''-'' @
         padStart 2 CHR ''0'' (toString (date d)) @ ''T'' @
         padStart 2 CHR ''0'' (toString (hours d)) @ '':'' @
         padStart 2 CHR ''0'' (toString (minutes d)) @ '':'' @
         padStart 2 CHR ''0'' (toString (seconds d)) @ ''.'' @ pseudoMicros @ sign @
         offHours @ '':'' @ offMins)"

definition emptyMeta :: PatientMeta where
  "emptyMeta = \<lparr>versionId = None, lastUpdated = None, meta_other = []\<rparr>"

text \<open>\<open>(parseInt(suffix, 10) + 1).toString()\<close>\<close>

definition nextNumber :: "Env \<Rightarrow> string \<Rightarrow> string" where
  "nextNumber env suffix =
     (if int (parseInt suffix) < 2 ^ 53 then toString (parseInt suffix + 1) else bigNumber env suffix)"

definition updateMetaData :: "Env \<Rightarrow> nat \<Rightarrow> PatientResource \<Rightarrow> PatientResource" where
  "updateMetaData env k resource =
     (let m0 = (case meta resource of None \<Rightarrow> emptyMeta | Some m \<Rightarrow> m);
          m1 = m0\<lparr>lastUpdated := Some (buildLastUpdatedTimestamp (now env k) (random1000 env k))\<rparr>;
          vid = versionId m1
      in case vid of
           Some v \<Rightarrow>
             if startsWith v ''v'' \<and> allDigits (drop 1 v)
             then resource\<lparr>meta := Some (m1\<lparr>versionId :=
                    Some (''v'' @ padStart 3 CHR ''0'' (nextNumber env (drop 1 v)))\<rparr>)\<rparr>
             else resource\<lparr>meta := Some (m1\<lparr>versionId :=
                    Some ((if v = [] then ''v000'' else v) @ ''-updated'')\<rparr>)\<rparr>
         | None \<Rightarrow> resource\<lparr>meta := Some (m1\<lparr>versionId := Some (''v000'' @ ''-updated'')\<rparr>)\<rparr>)"

definition isMobilePhone :: "PatientTelecom \<Rightarrow> bool" where
  "isMobilePhone t = (tel_system t = ''phone'' \<and> tel_use t = Some ''mobile'')"

text \<open>\<open>Array.prototype.find\<close> returns the first matching element itself, so that an
  assignment to it changes the array at that position: the model finds the position.\<close>

fun findIndex :: "('a \<Rightarrow> bool) \<Rightarrow> 'a list \<Rightarrow> nat option" where
  "findIndex P [] = None"
| "findIndex P (x # xs) = (if P x then Some 0 else map_option Suc (findIndex P xs))"

definition telecomOf :: "PatientResource \<Rightarrow> PatientTelecom list" where
  "telecomOf p = (case telecom p of None \<Rightarrow> [] | Some ts \<Rightarrow> ts)"

text \<open>\<open>applyPhone\<close> on the patient object; \<open>k\<close> counts the earlier calls of
  \<open>buildLastUpdatedTimestamp\<close>. The result is the returned flag and the object after
  the call.\<close>

definition applyPhone :: "Env \<Rightarrow> nat \<Rightarrow> PatientResource \<Rightarrow> string \<Rightarrow> bool \<times> PatientResource" where
  "applyPhone env k patient phone =
     (let ts = telecomOf patient;
          p1 = patient\<lparr>telecom := Some ts\<rparr>
      in case findIndex isMobilePhone ts of
           Some i \<Rightarrow>
             if tel_value (ts ! i) = phone then (False, p1)
             else (True, updateMetaData env k
                     (p1\<lparr>telecom := Some (ts[i := (ts ! i)\<lparr>tel_value := phone, tel_rank := Some 1\<rparr>])\<rparr>))
         | None \<Rightarrow>
             (True, updateMetaData env k
                (p1\<lparr>telecom := Some (ts @ [\<lparr>tel_system = ''phone'', tel_use = Some ''mobile'',
                                              tel_value = phone, tel_rank = Some 1\<rparr>])\<rparr>)))"

text \<open>The repository holds the patient objects in an array; the \<open>byNik\<close> map holds
  references to the same objects, modelled as positions in the array.\<close>

record Repository =
  patients :: "PatientResource list"
  byNik :: "string \<rightharpoonup> nat"

definition identifiersOf :: "PatientResource \<Rightarrow> PatientIdentifier list" where
  "identifiersOf p = (case identifiers p of None \<Rightarrow> [] | Some ids \<Rightarrow> ids)"

definition indexIdentifiers :: "nat \<Rightarrow> PatientIdentifier list \<Rightarrow> (string \<rightharpoonup> nat) \<Rightarrow> (string \<rightharpoonup> nat)" where
  "indexIdentifiers i ids m =
     foldl (\<lambda>m ident. if id_system ident = NIK_SYSTEM then m(id_value ident \<mapsto> i) else m) m ids"

definition InMemoryPatientRepository :: "PatientResource list \<Rightarrow> Repository" where
  "InMemoryPatientRepository ps =
     \<lparr>patients = ps,
      byNik = foldl (\<lambda>m i. indexIdentifiers i (identifiersOf (ps ! i)) m) Map.empty [0..<length ps]\<rparr>"

definition findByNik :: "Repository \<Rightarrow> string \<Rightarrow> nat option" where
  "findByNik repo n = byNik repo n"

definition allPatients :: "Repository \<Rightarrow> PatientResource list" where
  "allPatients repo = patients repo"

section \<open>Sheet source (infrastructure.ts)\<close>

text \<open>\<open>content.split(/\r?\n/)\<close>; the first argument is the current line, reversed.\<close>

fun splitLines :: "string \<Rightarrow> string \<Rightarrow> string list" where
  "splitLines cur [] = [rev cur]"
| "splitLines cur [c] = (if c = CHR 0x0A then [rev cur, []] else [rev (c # cur)])"
| "splitLines cur (c # d # cs) =
     (if c = CHR 0x0D \<and> d = CHR 0x0A then rev cur # splitLines [] cs
      else if c = CHR 0x0A then rev cur # splitLines [] (d # cs)
      else splitLines (c # cur) (d # cs))"

text \<open>\<open>line.split(",")\<close>\<close>

fun splitComma :: "string \<Rightarrow> string \<Rightarrow> string list" where
  "splitComma cur [] = [rev cur]"
| "splitComma cur (c # cs) =
     (if c = CHR '','' then rev cur # splitComma [] cs else splitComma (c # cur) cs)"

text \<open>\<open>(cols[i] || "")\<close> with \<open>i = header.indexOf(h)\<close>: an absent header gives index
  \<open>-1\<close>, and a read outside the array gives \<open>undefined\<close>, both replaced by the
  empty string.\<close>

definition column :: "string list \<Rightarrow> nat option \<Rightarrow> string" where
  "column cols idx = (case idx of None \<Rightarrow> [] | Some i \<Rightarrow> if i < length cols then cols ! i else [])"

text \<open>The rows pushed by the reading loop of \<open>loadRows\<close>, before they are sorted.\<close>

definition readRows :: "string \<Rightarrow> SheetRow list" where
  "readRows content =
     (let lines = filter (\<lambda>l. length (trim l) > 0) (splitLines [] content) in
      if lines = [] then []
      else let header = map trim (splitComma [] (hd lines));
               idx = (\<lambda>h. findIndex (\<lambda>x. x = h) header);
               li = idx ''last_updated_date'';
               ni = idx ''nik_identifier'';
               na = idx ''name'';
               pn = idx ''phone_number''
           in map (\<lambda>line. let cols = splitComma [] line in
                     \<lparr>lastUpdatedDate = trim (column cols li), nik = trim (column cols ni),
                      name = trim (column cols na), rawPhone = trim (column cols pn)\<rparr>)
                  (tl lines))"

subsection \<open>Dates\<close>

text \<open>\<open>Date.UTC(year, month, day)\<close> on integers, after ECMAScript's MakeFullYear,
  MakeDay, MakeDate and TimeClip; \<open>None\<close> is \<open>NaN\<close>. All values that occur are
  integers far below \<open>2^53\<close>, where floating-point arithmetic is exact.\<close>

definition MakeFullYear :: "int \<Rightarrow> int" where
  "MakeFullYear y = (if 0 \<le> y \<and> y \<le> 99 then 1900 + y else y)"

definition DayFromYear :: "int \<Rightarrow> int" where
  "DayFromYear y = 365 * (y - 1970) + (y - 1969) div 4 - (y - 1901) div 100 + (y - 1601) div 400"

definition InLeapYear :: "int \<Rightarrow> bool" where
  "InLeapYear y = (y mod 4 = 0 \<and> (y mod 100 \<noteq> 0 \<or> y mod 400 = 0))"

definition daysBeforeMonth :: "nat \<Rightarrow> bool \<Rightarrow> int" where
  "daysBeforeMonth mn leap =
     [0, 31, 59, 90, 120, 151, 181, 212, 243, 273, 304, 334] ! mn + (if leap \<and> mn \<ge> 2 then 1 else 0)"

definition MakeDay :: "int \<Rightarrow> int \<Rightarrow> int \<Rightarrow> int" where
  "MakeDay yr m dt =
     (let ym = yr + m div 12; mn = nat (m mod 12)
      in DayFromYear ym + daysBeforeMonth mn (InLeapYear ym) + dt - 1)"

definition msPerDay :: int where "msPerDay = 86400000"

definition TimeClip :: "int \<Rightarrow> int option" where
  "TimeClip t = (if \<bar>t\<bar> > 8640000000000000 then None else Some t)"

definition DateUTC :: "int \<Rightarrow> int \<Rightarrow> int \<Rightarrow> int option" where
  "DateUTC y m dt = TimeClip (MakeDay (MakeFullYear y) m dt * msPerDay)"

text \<open>\<open>d.match(/^(\d{2})[\/-](\d{2})[\/-](\d{4})$/)\<close>: the three groups, or
  \<open>None\<close> for no match.\<close>

definition isDateSep :: "char \<Rightarrow> bool" where
  "isDateSep c = (c = CHR ''/'' \<or> c = CHR ''-'')"

definition matchDate :: "string \<Rightarrow> (string \<times> string \<times> string) option" where
  "matchDate d =
     (if length d = 10 \<and> list_all isDigit (take 2 d) \<and> isDateSep (d ! 2) \<and>
         list_all isDigit (take 2 (drop 3 d)) \<and> isDateSep (d ! 5) \<and> list_all isDigit (drop 6 d)
      then Some (take 2 d, take 2 (drop 3 d), drop 6 d) else None)"

definition parseDate :: "string \<Rightarrow> int" where
  "parseDate d =
     (if d = [] then 0
      else case matchDate d of
             None \<Rightarrow> 0
           | Some (dd, mm, yyyy) \<Rightarrow>
               (case DateUTC (int (parseInt yyyy)) (int (parseInt mm) - 1) (int (parseInt dd)) of
                  None \<Rightarrow> 0 | Some ts \<Rightarrow> ts))"

text \<open>\<open>rows.sort((a, b) => parseDate(a.lastUpdatedDate) - parseDate(b.lastUpdatedDate))\<close>:
  \<open>Array.prototype.sort\<close> is stable, and the comparator orders by the integer key, so
  the result is the stable sort by that key.\<close>

definition sortRows :: "SheetRow list \<Rightarrow> SheetRow list" where
  "sortRows rows = sort_key (\<lambda>r. parseDate (lastUpdatedDate r)) rows"

definition loadRows :: "string \<Rightarrow> SheetRow list" where
  "loadRows content = sortRows (readRows content)"

section \<open>Reporter (infrastructure.ts)\<close>

record InvalidEntry =
  inv_nik :: string
  inv_raw :: string
  inv_reason :: string

text \<open>\<open>written\<close> holds the arguments of the calls of \<open>writeOutputs\<close>: the patients and
  the statistics that were serialised.\<close>

record UpdateReporter =
  invalid :: "InvalidEntry list"
  stats :: UpdateStats
  written :: "(PatientResource list \<times> UpdateStats \<times> InvalidEntry list) list"

definition newUpdateReporter :: UpdateReporter where
  "newUpdateReporter =
     \<lparr>invalid = [],
      stats = \<lparr>totalRows = 0, validUpdated = 0, validUnchanged = 0, invalidFormat = 0,
               missingPatient = 0\<rparr>,
      written = []\<rparr>"

definition recordInvalid :: "UpdateReporter \<Rightarrow> SheetRow \<Rightarrow> string \<Rightarrow> UpdateReporter" where
  "recordInvalid rep row rsn =
     (let rep1 = rep\<lparr>invalid := invalid rep @ [\<lparr>inv_nik = nik row, inv_raw = rawPhone row, inv_reason = rsn\<rparr>]\<rparr>
      in if rsn = ''missing_patient''
         then rep1\<lparr>stats := (stats rep1)\<lparr>missingPatient := missingPatient (stats rep1) + 1\<rparr>\<rparr>
         else rep1\<lparr>stats := (stats rep1)\<lparr>invalidFormat := invalidFormat (stats rep1) + 1\<rparr>\<rparr>)"

definition incTotal :: "UpdateReporter \<Rightarrow> UpdateReporter" where
  "incTotal rep = rep\<lparr>stats := (stats rep)\<lparr>totalRows := totalRows (stats rep) + 1\<rparr>\<rparr>"

definition incUpdated :: "UpdateReporter \<Rightarrow> UpdateReporter" where
  "incUpdated rep = rep\<lparr>stats := (stats rep)\<lparr>validUpdated := validUpdated (stats rep) + 1\<rparr>\<rparr>"

definition incUnchanged :: "UpdateReporter \<Rightarrow> UpdateReporter" where
  "incUnchanged rep = rep\<lparr>stats := (stats rep)\<lparr>validUnchanged := validUnchanged (stats rep) + 1\<rparr>\<rparr>"

definition buildStats :: "UpdateReporter \<Rightarrow> UpdateStats" where
  "buildStats rep = stats rep"

definition writeOutputs :: "UpdateReporter \<Rightarrow> PatientResource list \<Rightarrow> UpdateReporter" where
  "writeOutputs rep ps = rep\<lparr>written := written rep @ [(ps, stats rep, invalid rep)]\<rparr>"

section \<open>Reconciliation loop (updateService.ts)\<close>

text \<open>The objects the service holds, and the number of timestamps built so far.\<close>

record ServiceState =
  repo :: Repository
  reporter :: UpdateReporter
  clock :: nat

text \<open>The test \<open>!norm.valid || !norm.canonical\<close>, which holds also for \<open>null\<close> and for
  the empty string: the canonical value when the test fails, \<open>None\<close> when it holds.\<close>

definition accepted :: "NormalisedPhone \<Rightarrow> string option" where
  "accepted norm =
     (if \<not> valid norm then None
      else case canonical norm of None \<Rightarrow> None | Some c \<Rightarrow> if c = [] then None else Some c)"

text \<open>\<open>norm.reason || "invalid"\<close>\<close>

definition reasonOrInvalid :: "NormalisedPhone \<Rightarrow> string" where
  "reasonOrInvalid norm =
     (case reason norm of None \<Rightarrow> ''invalid'' | Some rs \<Rightarrow> if rs = [] then ''invalid'' else rs)"

text \<open>One iteration of the loop of \<open>run\<close>. The patient found is the object at position
  \<open>i\<close> of the repository's array, which \<open>applyPhone\<close> changes in place.\<close>

definition processRow :: "Env \<Rightarrow> PhoneFormat \<Rightarrow> ServiceState \<Rightarrow> SheetRow \<Rightarrow> ServiceState" where
  "processRow env fmt st row =
     (let rep1 = incTotal (reporter st);
          norm = normalise fmt (rawPhone row)
      in case accepted norm of
           None \<Rightarrow> st\<lparr>reporter := recordInvalid rep1 row (reasonOrInvalid norm)\<rparr>
         | Some c \<Rightarrow>
            (case findByNik (repo st) (nik row) of
               None \<Rightarrow> st\<lparr>reporter := recordInvalid rep1 row ''missing_patient''\<rparr>
             | Some i \<Rightarrow>
                 (let (changed, p') = applyPhone env (clock st) (patients (repo st) ! i) c;
                      repo1 = (repo st)\<lparr>patients := (patients (repo st))[i := p']\<rparr>
                  in if changed
                     then \<lparr>repo = repo1, reporter = incUpdated rep1, clock = clock st + 1\<rparr>
                     else \<lparr>repo = repo1, reporter = incUnchanged rep1, clock = clock st\<rparr>)))"

definition processRows :: "Env \<Rightarrow> PhoneFormat \<Rightarrow> ServiceState \<Rightarrow> SheetRow list \<Rightarrow> ServiceState" where
  "processRows env fmt st rows = foldl (processRow env fmt) st rows"

text \<open>\<open>UpdateService.run\<close> on the rows the sheet source returns, which it has sorted.\<close>

definition runSorted :: "Env \<Rightarrow> PhoneFormat \<Rightarrow> ServiceState \<Rightarrow> SheetRow list \<Rightarrow> ServiceState" where
  "runSorted env fmt st rows =
     (let st1 = processRows env fmt st rows
      in st1\<lparr>reporter := writeOutputs (reporter st1) (allPatients (repo st1))\<rparr>)"

text \<open>\<open>run\<close> with a sheet source whose reading loop produced \<open>rows\<close>.\<close>

definition runRows :: "Env \<Rightarrow> PhoneFormat \<Rightarrow> ServiceState \<Rightarrow> SheetRow list \<Rightarrow> ServiceState" where
  "runRows env fmt st rows = runSorted env fmt st (sortRows rows)"

text \<open>\<open>run\<close> with a \<open>CsvSheetSource\<close> on a file with the given content.\<close>

definition run :: "Env \<Rightarrow> PhoneFormat \<Rightarrow> ServiceState \<Rightarrow> string \<Rightarrow> ServiceState" where
  "run env fmt st content = runSorted env fmt st (loadRows content)"

text \<open>The state in which \<open>main\<close> starts the service: the repository built from the
  patient bundle, and a new reporter.\<close>

definition initialState :: "PatientResource list \<Rightarrow> ServiceState" where
  "initialState ps = \<lparr>repo = InMemoryPatientRepository ps, reporter = newUpdateReporter, clock = 0\<rparr>"

section \<open>Shapes named by the specification\<close>

text \<open>The value invariant in the specification's words: an optional leading \<open>+\<close>
  followed by 10 to 15 digits, and nothing else.\<close>

definition specCanonicalShape :: "string \<Rightarrow> bool" where
  "specCanonicalShape s =
     (let ds = (if startsWith s ''+'' then drop 1 s else s)
      in list_all isDigit ds \<and> 10 \<le> length ds \<and> length ds \<le> 15)"

section \<open>Observations on records and statistics\<close>

text \<open>The version tag of a record, absent when the record has no metadata.\<close>

definition versionOf :: "PatientResource \<Rightarrow> string option" where
  "versionOf p = (case meta p of None \<Rightarrow> None | Some m \<Rightarrow> versionId m)"

text \<open>The value of the channel that \<open>applyPhone\<close> locates: the first one with system
  \<open>phone\<close> and use \<open>mobile\<close>.\<close>

definition mobilePhoneValue :: "PatientResource \<Rightarrow> string option" where
  "mobilePhoneValue p =
     (case findIndex isMobilePhone (telecomOf p) of
        None \<Rightarrow> None | Some i \<Rightarrow> Some (tel_value (telecomOf p ! i)))"

definition outcomeSum :: "UpdateStats \<Rightarrow> nat" where
  "outcomeSum s = validUpdated s + validUnchanged s + invalidFormat s + missingPatient s"

section \<open>Example data\<close>

text \<open>A fixed clock and filler, as a test injects them.\<close>

definition fixedInstant :: Instant where
  "fixedInstant = \<lparr>fullYear = 2025, month = 7, date = 22, hours = 10, minutes = 15,
     seconds = 30, milliseconds = 123, timezoneOffset = - 420\<rparr>"

definition fixedEnv :: Env where
  "fixedEnv = \<lparr>now = (\<lambda>k. fixedInstant), random1000 = (\<lambda>k. 456), bigNumber = (\<lambda>s. s)\<rparr>"

definition mobile :: "string \<Rightarrow> PatientTelecom" where
  "mobile v = \<lparr>tel_system = ''phone'', tel_use = Some ''mobile'', tel_value = v, tel_rank = None\<rparr>"

definition email :: "string \<Rightarrow> PatientTelecom" where
  "email v = \<lparr>tel_system = ''email'', tel_use = None, tel_value = v, tel_rank = None\<rparr>"

definition patientWith :: "string \<Rightarrow> string \<Rightarrow> PatientTelecom list option \<Rightarrow> string option \<Rightarrow> PatientResource" where
  "patientWith i n ts v =
     \<lparr>resourceType = ''Patient'', pid = i,
      identifiers = Some [\<lparr>id_system = NIK_SYSTEM, id_value = n\<rparr>],
      telecom = ts,
      meta = Some \<lparr>versionId = v, lastUpdated = None, meta_other = []\<rparr>,
      other = []\<rparr>"

definition sheetRow :: "string \<Rightarrow> string \<Rightarrow> string \<Rightarrow> SheetRow" where
  "sheetRow d n ph = \<lparr>lastUpdatedDate = d, nik = n, name = ''NAME'', rawPhone = ph\<rparr>"

text \<open>Two patients without a phone, and three rows: two for the first patient, the
  newer one first, and one for the second patient.\<close>

definition examplePatients :: "PatientResource list" where
  "examplePatients =
     [patientWith ''patient-001'' ''3171044203920001'' None (Some ''v001''),
      patientWith ''patient-002'' ''3578106207900002'' None (Some ''v010'')]"

definition exampleRows :: "SheetRow list" where
  "exampleRows =
     [sheetRow ''23-09-2025'' ''3171044203920001'' ''+6281234567890'',
      sheetRow ''22-09-2025'' ''3171044203920001'' ''081234567891'',
      sheetRow ''23-09-2025'' ''3578106207900002'' ''081234567892'']"

text \<open>A record that carries two national identifiers.\<close>

definition twoIdentifierPatient :: PatientResource where
  "twoIdentifierPatient =
     \<lparr>resourceType = ''Patient'', pid = ''patient-003'',
      identifiers = Some [\<lparr>id_system = NIK_SYSTEM, id_value = ''1111111111111111''\<rparr>,
                          \<lparr>id_system = NIK_SYSTEM, id_value = ''2222222222222222''\<rparr>],
      telecom = None,
      meta = Some \<lparr>versionId = Some ''v001'', lastUpdated = None, meta_other = []\<rparr>,
      other = []\<rparr>"

section \<open>The normaliser: results\<close>

lemmas normalise_eval =
  normalise_def trim_def isWhiteSpace_def stripNonDigit_def collapsePlus_def startsWith_def
  isDigit_def allDigits_def finish_def build_def Let_def MIN_LEN_def MAX_LEN_def

lemma build_sel [simp]:
  "raw (build r c v rs) = r" "canonical (build r c v rs) = c"
  "valid (build r c v rs) = v" "reason (build r c v rs) = rs"
  by (simp_all add: build_def)

lemma plus62_after_plus:
  "startsWith c ''+62'' \<Longrightarrow> allDigits (drop 1 c) \<Longrightarrow>
   startsWith (''+'' @ drop 1 c) ''+62'' \<and> list_all isDigit (drop 1 (''+'' @ drop 1 c))"
  by (cases c) (auto simp: startsWith_def allDigits_def)

lemma plus62_prepended:
  "allDigits rest \<Longrightarrow>
   startsWith (''+62'' @ rest) ''+62'' \<and> list_all isDigit (drop 1 (''+62'' @ rest))"
  by (simp add: startsWith_def allDigits_def isDigit_def)

text \<open>Every result of the normaliser is a rejection with one of three reasons, or it is
  what the final steps make of \<open>+62\<close> followed by digits.\<close>

lemma normalise_form:
  "\<exists>canon. (normalise fmt s = finish fmt (trim s) canon \<and>
             startsWith canon ''+62'' \<and> list_all isDigit (drop 1 canon)) \<or>
     normalise fmt s = build (trim s) None False (Some ''empty'') \<or>
     normalise fmt s = build (trim s) None False (Some ''non_digit'') \<or>
     normalise fmt s = build (trim s) None False (Some ''length'')"
proof -
  define c where "c = collapsePlus (stripNonDigit (trim s))"
  have eq: "normalise fmt s =
      (if trim s = [] then build (trim s) None False (Some ''empty'')
       else if startsWith c ''+62'' then
          (if allDigits (drop 1 c) then finish fmt (trim s) (''+'' @ drop 1 c)
           else build (trim s) None False (Some ''non_digit''))
        else if startsWith c ''62'' then
          (if allDigits (drop 2 c) then finish fmt (trim s) (''+62'' @ drop 2 c)
           else build (trim s) None False (Some ''non_digit''))
        else if startsWith c ''0'' then
          (if allDigits (drop 1 c) then finish fmt (trim s) (''+62'' @ drop 1 c)
           else build (trim s) None False (Some ''non_digit''))
        else
          (if \<not> allDigits c then build (trim s) None False (Some ''non_digit'')
           else if length c \<ge> 9 \<and> length c \<le> 13 then finish fmt (trim s) (''+62'' @ c)
           else build (trim s) None False (Some ''length'')))"
    unfolding normalise_def Let_def c_def by (rule refl)
  show ?thesis
  proof (cases "trim s = []")
    case True
    then have "normalise fmt s = build (trim s) None False (Some ''empty'')"
      by (simp add: eq)
    then show ?thesis by blast
  next
    case ne: False
    show ?thesis
    proof (cases "startsWith c ''+62''")
      case True
      show ?thesis
      proof (cases "allDigits (drop 1 c)")
        case d: True
        have "normalise fmt s = finish fmt (trim s) (''+'' @ drop 1 c)"
          using ne True d by (simp add: eq)
        then show ?thesis using plus62_after_plus[OF True d] by blast
      next
        case d: False
        have "normalise fmt s = build (trim s) None False (Some ''non_digit'')"
          using ne True d by (simp add: eq)
        then show ?thesis by blast
      qed
    next
      case n1: False
      show ?thesis
      proof (cases "startsWith c ''62''")
        case True
        show ?thesis
        proof (cases "allDigits (drop 2 c)")
          case d: True
          have "normalise fmt s = finish fmt (trim s) (''+62'' @ drop 2 c)"
            using ne n1 True d by (simp add: eq)
          then show ?thesis using plus62_prepended[OF d] by blast
        next
          case d: False
          have "normalise fmt s = build (trim s) None False (Some ''non_digit'')"
            using ne n1 True d by (simp add: eq)
          then show ?thesis by blast
        qed
      next
        case n2: False
        show ?thesis
        proof (cases "startsWith c ''0''")
          case True
          show ?thesis
          proof (cases "allDigits (drop 1 c)")
            case d: True
            have "normalise fmt s = finish fmt (trim s) (''+62'' @ drop 1 c)"
              using ne n1 n2 True d by (simp add: eq)
            then show ?thesis using plus62_prepended[OF d] by blast
          next
            case d: False
            have "normalise fmt s = build (trim s) None False (Some ''non_digit'')"
              using ne n1 n2 True d by (simp add: eq)
            then show ?thesis by blast
          qed
        next
          case n3: False
          show ?thesis
          proof (cases "allDigits c")
            case d: True
            show ?thesis
            proof (cases "length c \<ge> 9 \<and> length c \<le> 13")
              case True
              have "normalise fmt s = finish fmt (trim s) (''+62'' @ c)"
                using ne n1 n2 n3 True d by (simp add: eq)
              then show ?thesis using plus62_prepended[OF d] by blast
            next
              case False
              have "normalise fmt s = build (trim s) None False (Some ''length'')"
                using ne n1 n2 n3 False d by (auto simp add: eq)
              then show ?thesis by blast
            qed
          next
            case d: False
            have "normalise fmt s = build (trim s) None False (Some ''non_digit'')"
              using ne n1 n2 n3 d by (simp add: eq)
            then show ?thesis by blast
          qed
        qed
      qed
    qed
  qed
qed

lemma finish_reason:
  "startsWith canon ''+62'' \<Longrightarrow> reason (finish fmt r canon) \<noteq> Some ''bad_prefix''"
  by (simp add: finish_def Let_def)

lemma finish_valid:
  assumes "valid (finish fmt r canon)"
  shows "startsWith canon ''+62'' \<and> 11 \<le> length canon \<and> length canon \<le> 16 \<and>
         canonical (finish fmt r canon) = Some (if fmt = local0 then ''0'' @ drop 3 canon else canon)"
proof -
  have p: "startsWith canon ''+62''"
    using assms by (cases "startsWith canon ''+62''") (simp_all add: finish_def)
  have l: "\<not> (length canon - 1 < MIN_LEN \<or> length canon - 1 > MAX_LEN)"
    using assms p
    by (cases "length canon - 1 < MIN_LEN \<or> length canon - 1 > MAX_LEN")
       (simp_all add: finish_def Let_def)
  have "canonical (finish fmt r canon) = Some (if fmt = local0 then ''0'' @ drop 3 canon else canon)"
    using p l by (simp add: finish_def Let_def)
  moreover have "11 \<le> length canon \<and> length canon \<le> 16"
    using l by (simp add: MIN_LEN_def MAX_LEN_def) arith
  ultimately show ?thesis using p by blast
qed

lemma finish_shape:
  assumes v: "valid (finish fmt r canon)" and d: "list_all isDigit (drop 1 canon)"
  shows "\<exists>out. canonical (finish fmt r canon) = Some out \<and>
     (case fmt of
        e164 \<Rightarrow> startsWith out ''+62'' \<and> allDigits (drop 1 out) \<and>
                10 \<le> length (drop 1 out) \<and> length (drop 1 out) \<le> 15
      | local0 \<Rightarrow> startsWith out ''0'' \<and> allDigits out \<and> 9 \<le> length out \<and> length out \<le> 14)"
proof -
  note fv = finish_valid[OF v]
  have "set (drop 3 canon) \<subseteq> set (drop 1 canon)"
    by (rule set_drop_subset_set_drop) simp
  then have d3: "list_all isDigit (drop 3 canon)"
    using d by (auto simp: list_all_iff)
  show ?thesis
  proof (cases fmt)
    case e164
    have "allDigits (drop 1 canon)" using d fv by (auto simp: allDigits_def)
    moreover have "10 \<le> length (drop 1 canon) \<and> length (drop 1 canon) \<le> 15"
      using fv by simp arith
    ultimately show ?thesis using fv e164 by simp
  next
    case local0
    have "isDigit CHR ''0''" by (simp add: isDigit_def)
    then have "allDigits (''0'' @ drop 3 canon)" using d3 by (simp add: allDigits_def)
    moreover have "9 \<le> length (''0'' @ drop 3 canon) \<and> length (''0'' @ drop 3 canon) \<le> 14"
      using fv by simp arith
    moreover have "startsWith (''0'' @ drop 3 canon) ''0''" by (simp add: startsWith_def)
    ultimately show ?thesis using fv local0 by simp
  qed
qed

text \<open>
  Claim C10. For every input string and both output formats, the normaliser never returns
  the rejection reason \<open>bad_prefix\<close>: each branch that assigns the intermediate canonical
  value hands a text beginning with \<open>+62\<close> to the prefix check.
\<close>

theorem normalise_never_bad_prefix:
  "reason (normalise fmt s) \<noteq> Some ''bad_prefix''"
proof -
  from normalise_form[of fmt s] obtain canon where
    "(normalise fmt s = finish fmt (trim s) canon \<and> startsWith canon ''+62'' \<and>
        list_all isDigit (drop 1 canon)) \<or>
     normalise fmt s = build (trim s) None False (Some ''empty'') \<or>
     normalise fmt s = build (trim s) None False (Some ''non_digit'') \<or>
     normalise fmt s = build (trim s) None False (Some ''length'')"
    by blast
  then consider
      (fin) "normalise fmt s = finish fmt (trim s) canon" "startsWith canon ''+62''"
    | (empty) "normalise fmt s = build (trim s) None False (Some ''empty'')"
    | (non_digit) "normalise fmt s = build (trim s) None False (Some ''non_digit'')"
    | (len) "normalise fmt s = build (trim s) None False (Some ''length'')"
    by blast
  then show ?thesis
  proof cases
    case fin
    then show ?thesis by (simp add: finish_reason)
  next
    case empty
    then show ?thesis by simp
  next
    case non_digit
    then show ?thesis by simp
  next
    case len
    then show ?thesis by simp
  qed
qed

text \<open>
  Claim C7, as the code has it. For every input string, a valid result carries a canonical
  value, which in the format \<open>e164\<close> is \<open>+\<close> followed by 10 to 15 digits (beginning
  \<open>62\<close>), and in the format \<open>local0\<close> is 9 to 14 digits beginning with \<open>0\<close>, without
  \<open>+\<close>; it contains no other character.
\<close>

theorem normalise_valid_shape:
  assumes "valid (normalise fmt s)"
  shows "\<exists>out. canonical (normalise fmt s) = Some out \<and>
     (case fmt of
        e164 \<Rightarrow> startsWith out ''+62'' \<and> allDigits (drop 1 out) \<and>
                10 \<le> length (drop 1 out) \<and> length (drop 1 out) \<le> 15
      | local0 \<Rightarrow> startsWith out ''0'' \<and> allDigits out \<and> 9 \<le> length out \<and> length out \<le> 14)"
proof -
  from normalise_form[of fmt s] obtain canon where
    "(normalise fmt s = finish fmt (trim s) canon \<and> startsWith canon ''+62'' \<and>
        list_all isDigit (drop 1 canon)) \<or>
     normalise fmt s = build (trim s) None False (Some ''empty'') \<or>
     normalise fmt s = build (trim s) None False (Some ''non_digit'') \<or>
     normalise fmt s = build (trim s) None False (Some ''length'')"
    by blast
  with assms have n: "normalise fmt s = finish fmt (trim s) canon"
    and d: "list_all isDigit (drop 1 canon)"
    by auto
  from assms n have "valid (finish fmt (trim s) canon)" by simp
  from finish_shape[OF this d] show ?thesis by (simp add: n)
qed

theorem normalise_valid_shape_witness:
  "valid (normalise local0 ''+6281234567'') \<and>
   (\<exists>out. canonical (normalise local0 ''+6281234567'') = Some out \<and>
      startsWith out ''0'' \<and> allDigits out \<and> 9 \<le> length out \<and> length out \<le> 14)"
proof -
  have h: "valid (normalise local0 ''+6281234567'')"
    by (simp add: normalise_eval)
  show ?thesis using h normalise_valid_shape[OF h] by simp
qed

text \<open>The shape the claim states, 10 to 15 digits, fails in the format \<open>local0\<close>: the
  length check counts the digits of the intermediate \<open>+62\<close> form, and the projection
  replaces \<open>62\<close> by a single \<open>0\<close>.\<close>

theorem normalise_valid_shape_counterexample:
  "valid (normalise local0 ''+6281234567'') \<and>
   canonical (normalise local0 ''+6281234567'') = Some ''081234567'' \<and>
   \<not> specCanonicalShape ''081234567''"
  by (simp add: normalise_eval specCanonicalShape_def)

text \<open>
  Claim C4, as the code has it. The normaliser rejects \<open>890123\<close> with the reason
  \<open>length\<close>, and it rejects \<open>62abc123\<close> with the reason \<open>length\<close> too, in either
  format: the letters are deleted before the text is classified, and \<open>62123\<close> is too
  short.
\<close>

theorem normalise_rejections:
  "\<not> valid (normalise fmt ''890123'') \<and> reason (normalise fmt ''890123'') = Some ''length'' \<and>
   \<not> valid (normalise fmt ''62abc123'') \<and> reason (normalise fmt ''62abc123'') = Some ''length''"
  by (simp add: normalise_eval)

theorem normalise_rejections_counterexample:
  "\<not> (\<not> valid (normalise e164 ''62abc123'') \<and>
      reason (normalise e164 ''62abc123'') = Some ''non_digit'')"
  by (simp add: normalise_eval)

text \<open>
  Claim C8. The input \<open>+62 812-3456-7890\<close> is valid in both formats, with the canonical
  value \<open>+6281234567890\<close> in the format \<open>e164\<close> and \<open>081234567890\<close> in the format
  \<open>local0\<close>.
\<close>

theorem normalise_round_trip:
  "valid (normalise e164 ''+62 812-3456-7890'') \<and>
   canonical (normalise e164 ''+62 812-3456-7890'') = Some ''+6281234567890'' \<and>
   valid (normalise local0 ''+62 812-3456-7890'') \<and>
   canonical (normalise local0 ''+62 812-3456-7890'') = Some ''081234567890''"
  by (simp add: normalise_eval)

section \<open>The record store: \<open>applyPhone\<close>\<close>

lemma findIndex_Some:
  "findIndex P xs = Some i \<Longrightarrow> i < length xs \<and> P (xs ! i) \<and> (\<forall>j<i. \<not> P (xs ! j))"
proof (induction xs arbitrary: i)
  case Nil
  then show ?case by simp
next
  case (Cons x xs)
  show ?case
  proof (cases "P x")
    case True
    with Cons.prems show ?thesis by simp
  next
    case False
    with Cons.prems obtain i' where i': "findIndex P xs = Some i'" "i = Suc i'" by auto
    from Cons.IH[OF i'(1)] False i'(2) show ?thesis
      by (auto simp: nth_Cons split: nat.splits)
  qed
qed

lemma findIndex_None: "(findIndex P xs = None) = (\<forall>x\<in>set xs. \<not> P x)"
  by (induction xs) auto

lemma findIndex_first:
  "i < length xs \<Longrightarrow> P (xs ! i) \<Longrightarrow> \<forall>j<i. \<not> P (xs ! j) \<Longrightarrow> findIndex P xs = Some i"
proof (induction xs arbitrary: i)
  case Nil
  then show ?case by simp
next
  case (Cons x xs)
  show ?case
  proof (cases i)
    case 0
    with Cons.prems show ?thesis by simp
  next
    case (Suc i')
    with Cons.prems have "\<not> P x" by auto
    moreover have "findIndex P xs = Some i'"
      using Cons.prems Suc by (intro Cons.IH) auto
    ultimately show ?thesis using Suc by simp
  qed
qed

lemma findIndex_update:
  assumes "findIndex P xs = Some i" and "P y"
  shows "findIndex P (xs[i := y]) = Some i"
proof -
  note f = findIndex_Some[OF assms(1)]
  show ?thesis using f assms(2) by (intro findIndex_first) (auto simp: nth_list_update)
qed

lemma findIndex_append_new:
  assumes "findIndex P xs = None" and "P y"
  shows "findIndex P (xs @ [y]) = Some (length xs)"
  using assms by (intro findIndex_first) (auto simp: findIndex_None nth_append)

lemma telecom_updateMetaData [simp]: "telecom (updateMetaData env k p) = telecom p"
  by (simp add: updateMetaData_def Let_def split: option.splits)

lemma telecomOf_updateMetaData [simp]: "telecomOf (updateMetaData env k p) = telecomOf p"
  by (simp add: telecomOf_def)

lemma telecomOf_set [simp]: "telecomOf (p\<lparr>telecom := Some ts\<rparr>) = ts"
  by (simp add: telecomOf_def)

lemma telecomOf_nonempty: "telecomOf p \<noteq> [] \<Longrightarrow> p\<lparr>telecom := Some (telecomOf p)\<rparr> = p"
  by (cases "telecom p") (simp_all add: telecomOf_def)

lemma applyPhone_same:
  assumes "findIndex isMobilePhone (telecomOf p) = Some i" and "tel_value (telecomOf p ! i) = phone"
  shows "applyPhone env k p phone = (False, p)"
proof -
  from findIndex_Some[OF assms(1)] have "telecomOf p \<noteq> []" by auto
  then have "p\<lparr>telecom := Some (telecomOf p)\<rparr> = p" by (rule telecomOf_nonempty)
  then show ?thesis using assms by (simp add: applyPhone_def Let_def)
qed

lemma applyPhone_other:
  assumes "findIndex isMobilePhone (telecomOf p) = Some i" and "tel_value (telecomOf p ! i) \<noteq> phone"
  shows "applyPhone env k p phone =
    (True, updateMetaData env k
       (p\<lparr>telecom := Some ((telecomOf p)[i := (telecomOf p ! i)\<lparr>tel_value := phone, tel_rank := Some 1\<rparr>])\<rparr>))"
  using assms by (simp add: applyPhone_def Let_def)

lemma applyPhone_absent:
  assumes "findIndex isMobilePhone (telecomOf p) = None"
  shows "applyPhone env k p phone =
    (True, updateMetaData env k
       (p\<lparr>telecom := Some (telecomOf p @ [\<lparr>tel_system = ''phone'', tel_use = Some ''mobile'',
                                              tel_value = phone, tel_rank = Some 1\<rparr>])\<rparr>))"
  using assms by (simp add: applyPhone_def Let_def)

lemma applyPhone_cases:
  obtains (same) i where "findIndex isMobilePhone (telecomOf p) = Some i" "tel_value (telecomOf p ! i) = phone"
      "applyPhone env k p phone = (False, p)"
  | (other) i where "findIndex isMobilePhone (telecomOf p) = Some i" "tel_value (telecomOf p ! i) \<noteq> phone"
      "applyPhone env k p phone =
        (True, updateMetaData env k
          (p\<lparr>telecom := Some ((telecomOf p)[i := (telecomOf p ! i)\<lparr>tel_value := phone, tel_rank := Some 1\<rparr>])\<rparr>))"
  | (absent) "findIndex isMobilePhone (telecomOf p) = None"
      "applyPhone env k p phone =
        (True, updateMetaData env k
          (p\<lparr>telecom := Some (telecomOf p @ [\<lparr>tel_system = ''phone'', tel_use = Some ''mobile'',
                                              tel_value = phone, tel_rank = Some 1\<rparr>])\<rparr>))"
proof (cases "findIndex isMobilePhone (telecomOf p)")
  case None
  then show ?thesis using absent applyPhone_absent by blast
next
  case (Some i)
  show ?thesis
  proof (cases "tel_value (telecomOf p ! i) = phone")
    case True
    then show ?thesis using same Some applyPhone_same by blast
  next
    case False
    then show ?thesis using other Some applyPhone_other by blast
  qed
qed

lemma isMobilePhone_set: "isMobilePhone t \<Longrightarrow> isMobilePhone (t\<lparr>tel_value := v, tel_rank := r\<rparr>)"
  by (simp add: isMobilePhone_def)

lemma isMobilePhone_new:
  "isMobilePhone \<lparr>tel_system = ''phone'', tel_use = Some ''mobile'', tel_value = v, tel_rank = r\<rparr>"
  by (simp add: isMobilePhone_def)

lemma mobilePhoneValue_applyPhone:
  "mobilePhoneValue (snd (applyPhone env k p phone)) = Some phone"
proof (cases rule: applyPhone_cases[of p phone env k])
  case (same i)
  then show ?thesis by (simp add: mobilePhoneValue_def)
next
  case (other i)
  note f = findIndex_Some[OF other(1)]
  have "findIndex isMobilePhone ((telecomOf p)[i := (telecomOf p ! i)\<lparr>tel_value := phone, tel_rank := Some 1\<rparr>]) = Some i"
    using other(1) f by (intro findIndex_update isMobilePhone_set) auto
  then show ?thesis using other(3) f by (simp add: mobilePhoneValue_def)
next
  case absent
  have "findIndex isMobilePhone (telecomOf p @ [\<lparr>tel_system = ''phone'', tel_use = Some ''mobile'',
                                              tel_value = phone, tel_rank = Some 1\<rparr>]) = Some (length (telecomOf p))"
    using absent(1) by (intro findIndex_append_new isMobilePhone_new)
  then show ?thesis using absent(2) by (simp add: mobilePhoneValue_def)
qed


lemma filter_single_eq:
  assumes "length (filter P xs) \<le> 1" and "a \<in> set xs" "P a" and "b \<in> set xs" "P b"
  shows "a = b"
proof -
  from assms(1) obtain c where c: "filter P xs = [] \<or> filter P xs = [c]"
    by (cases "filter P xs") (auto simp: Suc_le_eq)
  have "a \<in> set (filter P xs)" "b \<in> set (filter P xs)" using assms by auto
  with c show ?thesis by (metis empty_iff empty_set set_ConsD)
qed

lemma replicate_numeral: "replicate (numeral n) x = x # replicate (pred_numeral n) x"
  by (simp add: numeral_eq_Suc)

lemma mobilePhoneValue_single:
  assumes "length (filter isMobilePhone (telecomOf p)) \<le> 1"
    and "t \<in> set (telecomOf p)" "isMobilePhone t"
  shows "mobilePhoneValue p = Some (tel_value t)"
proof -
  from assms(2,3) have "findIndex isMobilePhone (telecomOf p) \<noteq> None"
    by (auto simp: findIndex_None)
  then obtain i where i: "findIndex isMobilePhone (telecomOf p) = Some i" by auto
  note f = findIndex_Some[OF i]
  have "telecomOf p ! i = t"
    using f assms by (intro filter_single_eq[of isMobilePhone "telecomOf p"]) auto
  then show ?thesis using i by (simp add: mobilePhoneValue_def)
qed

lemma applyPhone_located:
  assumes "mobilePhoneValue p = Some phone"
  shows "applyPhone env k p phone = (False, p)"
proof -
  from assms obtain i where "findIndex isMobilePhone (telecomOf p) = Some i"
    "tel_value (telecomOf p ! i) = phone"
    by (auto simp: mobilePhoneValue_def split: option.splits)
  then show ?thesis by (rule applyPhone_same)
qed

lemmas record_eval =
  patientWith_def mobile_def email_def telecomOf_def mobilePhoneValue_def isMobilePhone_def
  versionOf_def NIK_SYSTEM_def

lemmas applyPhone_eval =
  applyPhone_def updateMetaData_def nextNumber_def buildLastUpdatedTimestamp_def padStart_def
  parseInt_def digitValue_def digitChar_def toString.simps fixedEnv_def fixedInstant_def
  startsWith_def allDigits_def isDigit_def emptyMeta_def Let_def replicate_numeral

text \<open>
  Claim C2, as the code has it. \<open>applyPhone\<close> is idempotent: when the channel it locates,
  the first one with system \<open>phone\<close> and use \<open>mobile\<close>, already carries the canonical
  value, the call returns false and the record is the same afterwards, metadata included.
  That is so in particular when the record holds at most one such channel and it carries
  the value. For every record, a second call with the same value returns false and changes
  nothing.
\<close>

theorem applyPhone_idempotent:
  "(mobilePhoneValue p = Some phone \<longrightarrow> applyPhone env k p phone = (False, p)) \<and>
   (length (filter isMobilePhone (telecomOf p)) \<le> 1 \<and> t \<in> set (telecomOf p) \<and>
      isMobilePhone t \<and> tel_value t = phone \<longrightarrow> applyPhone env k p phone = (False, p)) \<and>
   applyPhone env k' (snd (applyPhone env k p phone)) phone = (False, snd (applyPhone env k p phone))"
proof (intro conjI impI)
  assume "mobilePhoneValue p = Some phone"
  then show "applyPhone env k p phone = (False, p)" by (rule applyPhone_located)
next
  assume a: "length (filter isMobilePhone (telecomOf p)) \<le> 1 \<and> t \<in> set (telecomOf p) \<and>
      isMobilePhone t \<and> tel_value t = phone"
  then have "mobilePhoneValue p = Some phone"
    using mobilePhoneValue_single[of p t] by simp
  then show "applyPhone env k p phone = (False, p)" by (rule applyPhone_located)
next
  show "applyPhone env k' (snd (applyPhone env k p phone)) phone = (False, snd (applyPhone env k p phone))"
    by (rule applyPhone_located) (rule mobilePhoneValue_applyPhone)
qed

theorem applyPhone_idempotent_witness:
  "mobilePhoneValue (patientWith ''patient-001'' ''3171044203920001''
       (Some [email ''a@example.org'', mobile ''+6281234567890'']) (Some ''v001'')) = Some ''+6281234567890'' \<and>
   applyPhone fixedEnv 0 (patientWith ''patient-001'' ''3171044203920001''
       (Some [email ''a@example.org'', mobile ''+6281234567890'']) (Some ''v001'')) ''+6281234567890'' =
     (False, patientWith ''patient-001'' ''3171044203920001''
       (Some [email ''a@example.org'', mobile ''+6281234567890'']) (Some ''v001''))"
proof -
  have h: "mobilePhoneValue (patientWith ''patient-001'' ''3171044203920001''
       (Some [email ''a@example.org'', mobile ''+6281234567890'']) (Some ''v001'')) = Some ''+6281234567890''"
    by (simp add: record_eval)
  show ?thesis
    using h applyPhone_idempotent[of "patientWith ''patient-001'' ''3171044203920001''
       (Some [email ''a@example.org'', mobile ''+6281234567890'']) (Some ''v001'')" "''+6281234567890''" fixedEnv 0]
    by blast
qed

text \<open>A record with two mobile phone channels, the second of which carries the value:
  \<open>find\<close> returns the first, which is overwritten, and the version is bumped.\<close>

theorem applyPhone_idempotent_counterexample:
  "(\<exists>t \<in> set (telecomOf (patientWith ''patient-001'' ''3171044203920001''
        (Some [mobile ''+6281111111111'', mobile ''+6282222222222'']) (Some ''v001''))).
      isMobilePhone t \<and> tel_value t = ''+6282222222222'') \<and>
   fst (applyPhone fixedEnv 0 (patientWith ''patient-001'' ''3171044203920001''
        (Some [mobile ''+6281111111111'', mobile ''+6282222222222'']) (Some ''v001'')) ''+6282222222222'') \<and>
   versionOf (snd (applyPhone fixedEnv 0 (patientWith ''patient-001'' ''3171044203920001''
        (Some [mobile ''+6281111111111'', mobile ''+6282222222222'']) (Some ''v001'')) ''+6282222222222''))
     = Some ''v002'' \<and>
   map tel_value (telecomOf (snd (applyPhone fixedEnv 0 (patientWith ''patient-001'' ''3171044203920001''
        (Some [mobile ''+6281111111111'', mobile ''+6282222222222'']) (Some ''v001'')) ''+6282222222222'')))
     = [''+6282222222222'', ''+6282222222222'']"
  by (simp add: record_eval applyPhone_eval)


lemma fields_updateMetaData:
  "updateMetaData env k p = p\<lparr>meta := meta (updateMetaData env k p)\<rparr>"
  by (simp add: updateMetaData_def Let_def split: option.splits)

lemma filter_update_same:
  assumes "i < length xs" and "P (xs ! i) = P y"
  shows "map P (xs[i := y]) = map P xs"
  using assms by (simp add: list_eq_iff_nth_eq nth_list_update)

lemma filter_not_update:
  assumes "i < length xs" and "P (xs ! i)" and "P y"
  shows "filter (\<lambda>t. \<not> P t) (xs[i := y]) = filter (\<lambda>t. \<not> P t) xs"
  using assms
proof (induction xs arbitrary: i)
  case Nil
  then show ?case by simp
next
  case (Cons x xs)
  then show ?case by (cases i) auto
qed

lemma length_filter_update:
  assumes "i < length xs" and "P (xs ! i)" and "P y"
  shows "length (filter P (xs[i := y])) = length (filter P xs)"
  using assms
proof (induction xs arbitrary: i)
  case Nil
  then show ?case by simp
next
  case (Cons x xs)
  then show ?case by (cases i) auto
qed

text \<open>
  Claim C9. \<open>applyPhone\<close> touches no contact channel but the one it locates: the channels
  that are not mobile phone channels are the same, in the same order; every entry at a
  position other than the located one is unchanged, and no entry is removed; every field
  of the record other than \<open>telecom\<close> and \<open>meta\<close> is unchanged; and a record with at most
  one mobile phone channel before the call has at most one after it.
\<close>

theorem applyPhone_frame:
  assumes "applyPhone env k p phone = (changed, p')"
  shows "filter (\<lambda>t. \<not> isMobilePhone t) (telecomOf p') = filter (\<lambda>t. \<not> isMobilePhone t) (telecomOf p) \<and>
         length (telecomOf p) \<le> length (telecomOf p') \<and>
         (\<forall>j < length (telecomOf p). findIndex isMobilePhone (telecomOf p) \<noteq> Some j \<longrightarrow>
              telecomOf p' ! j = telecomOf p ! j) \<and>
         p'\<lparr>telecom := telecom p, meta := meta p\<rparr> = p \<and>
         (length (filter isMobilePhone (telecomOf p)) \<le> 1 \<longrightarrow>
              length (filter isMobilePhone (telecomOf p')) \<le> 1)"
proof (cases rule: applyPhone_cases[of p phone env k])
  case (same i)
  with assms have "p' = p" by simp
  then show ?thesis by simp
next
  case (other i)
  note f = findIndex_Some[OF other(1)]
  let ?t = "(telecomOf p ! i)\<lparr>tel_value := phone, tel_rank := Some 1\<rparr>"
  from other(3) assms
  have p': "p' = updateMetaData env k (p\<lparr>telecom := Some ((telecomOf p)[i := ?t])\<rparr>)" by simp
  have t: "telecomOf p' = (telecomOf p)[i := ?t]" by (simp add: p')
  have m: "isMobilePhone ?t" using f by (intro isMobilePhone_set) simp
  have 1: "filter (\<lambda>t. \<not> isMobilePhone t) (telecomOf p') = filter (\<lambda>t. \<not> isMobilePhone t) (telecomOf p)"
    unfolding t using f m by (intro filter_not_update) auto
  have 2: "length (filter isMobilePhone (telecomOf p')) = length (filter isMobilePhone (telecomOf p))"
    unfolding t using f m by (intro length_filter_update) auto
  have 3: "p'\<lparr>telecom := telecom p, meta := meta p\<rparr> = p"
    by (subst p', subst fields_updateMetaData) simp
  have 4: "\<forall>j < length (telecomOf p). findIndex isMobilePhone (telecomOf p) \<noteq> Some j \<longrightarrow>
              telecomOf p' ! j = telecomOf p ! j"
    unfolding t using other(1) by (auto simp: nth_list_update)
  show ?thesis using 1 2 3 4 by (simp add: t)
next
  case absent
  let ?t = "\<lparr>tel_system = ''phone'', tel_use = Some ''mobile'', tel_value = phone, tel_rank = Some 1\<rparr>"
  from absent(2) assms
  have p': "p' = updateMetaData env k (p\<lparr>telecom := Some (telecomOf p @ [?t])\<rparr>)" by simp
  have t: "telecomOf p' = telecomOf p @ [?t]" by (simp add: p')
  have none: "filter isMobilePhone (telecomOf p) = []"
    using absent(1) by (simp add: findIndex_None filter_empty_conv)
  have 1: "filter (\<lambda>t. \<not> isMobilePhone t) (telecomOf p') = filter (\<lambda>t. \<not> isMobilePhone t) (telecomOf p)"
    unfolding t using isMobilePhone_new[of phone "Some 1"] by simp
  have 2: "length (filter isMobilePhone (telecomOf p')) \<le> 1"
    unfolding t using none by simp
  have 3: "p'\<lparr>telecom := telecom p, meta := meta p\<rparr> = p"
    by (subst p', subst fields_updateMetaData) simp
  have 4: "\<forall>j < length (telecomOf p). findIndex isMobilePhone (telecomOf p) \<noteq> Some j \<longrightarrow>
              telecomOf p' ! j = telecomOf p ! j"
    unfolding t by (simp add: nth_append)
  show ?thesis using 1 2 3 4 by (simp add: t)
qed

theorem applyPhone_frame_witness:
  "filter (\<lambda>t. \<not> isMobilePhone t)
      (telecomOf (snd (applyPhone fixedEnv 0
         (patientWith ''patient-002'' ''3578106207900002''
            (Some [email ''a@example.org'', mobile ''+6281111111111'']) (Some ''v010''))
         ''+6281234567890''))) = [email ''a@example.org''] \<and>
   length (filter isMobilePhone
      (telecomOf (snd (applyPhone fixedEnv 0
         (patientWith ''patient-002'' ''3578106207900002''
            (Some [email ''a@example.org'', mobile ''+6281111111111'']) (Some ''v010''))
         ''+6281234567890'')))) \<le> 1"
proof -
  let ?p = "patientWith ''patient-002'' ''3578106207900002''
            (Some [email ''a@example.org'', mobile ''+6281111111111'']) (Some ''v010'')"
  have b: "filter (\<lambda>t. \<not> isMobilePhone t) (telecomOf ?p) = [email ''a@example.org'']"
    "length (filter isMobilePhone (telecomOf ?p)) \<le> 1"
    by (simp_all add: record_eval)
  show ?thesis
    using b applyPhone_frame[OF prod.collapse[symmetric], of fixedEnv 0 ?p "''+6281234567890''"]
    by simp
qed


section \<open>The record store: version tags\<close>

lemma digitValue_digitChar: "d < 10 \<Longrightarrow> digitValue (digitChar d) = d"
proof -
  assume "d < 10"
  then have "d \<in> {0,1,2,3,4,5,6,7,8,9}" by auto
  then show ?thesis
    by (auto simp: digitValue_def digitChar_def)
qed

lemma isDigit_digitChar: "d < 10 \<Longrightarrow> isDigit (digitChar d)"
proof -
  assume "d < 10"
  then have "d \<in> {0,1,2,3,4,5,6,7,8,9}" by auto
  then show ?thesis
    by (auto simp: isDigit_def digitChar_def)
qed

lemma parseInt_snoc: "parseInt (s @ [c]) = 10 * parseInt s + digitValue c"
  by (simp add: parseInt_def)

lemma parseInt_toString: "parseInt (toString n) = n"
proof (induction n rule: toString.induct)
  case (1 n)
  show ?case
  proof (cases "n < 10")
    case True
    then show ?thesis
      by (subst toString.simps) (simp add: parseInt_def digitValue_digitChar)
  next
    case False
    then have "parseInt (toString (n div 10)) = n div 10" by (rule 1)
    then show ?thesis using False
      by (subst toString.simps) (simp add: parseInt_snoc digitValue_digitChar)
  qed
qed

lemma digits_toString: "list_all isDigit (toString n) \<and> toString n \<noteq> []"
proof (induction n rule: toString.induct)
  case (1 n)
  show ?case
  proof (cases "n < 10")
    case True
    then show ?thesis
      by (subst (1 2) toString.simps) (simp add: isDigit_digitChar)
  next
    case False
    then have "list_all isDigit (toString (n div 10)) \<and> toString (n div 10) \<noteq> []" by (rule 1)
    then show ?thesis using False
      by (subst (1 2) toString.simps) (simp add: isDigit_digitChar)
  qed
qed

lemma parseInt_zeros: "parseInt (replicate k CHR ''0'' @ s) = parseInt s"
proof -
  have "foldl (\<lambda>a c. 10 * a + digitValue c) 0 (replicate k CHR ''0'') = 0"
    by (induction k) (simp_all add: digitValue_def)
  then show ?thesis by (simp add: parseInt_def)
qed


lemma padStart_digits:
  "allDigits (padStart 3 CHR ''0'' (toString n)) \<and> parseInt (padStart 3 CHR ''0'' (toString n)) = n \<and>
   length (padStart 3 CHR ''0'' (toString n)) = max 3 (length (toString n))"
proof -
  have z: "isDigit CHR ''0''" by (simp add: isDigit_def)
  have "list_all isDigit (padStart 3 CHR ''0'' (toString n))"
    using digits_toString[of n] z by (auto simp: padStart_def list_all_iff)
  moreover have "padStart 3 CHR ''0'' (toString n) \<noteq> []"
    using digits_toString[of n] by (simp add: padStart_def)
  moreover have "parseInt (padStart 3 CHR ''0'' (toString n)) = n"
    by (simp add: padStart_def parseInt_zeros parseInt_toString)
  moreover have "length (padStart 3 CHR ''0'' (toString n)) = max 3 (length (toString n))"
    by (simp add: padStart_def)
  ultimately show ?thesis by (simp add: allDigits_def)
qed

lemma versionOf_updateMetaData:
  "versionOf (updateMetaData env k p) =
     Some (case versionOf p of
             None \<Rightarrow> ''v000-updated''
           | Some v \<Rightarrow>
               if startsWith v ''v'' \<and> allDigits (drop 1 v)
               then ''v'' @ padStart 3 CHR ''0'' (nextNumber env (drop 1 v))
               else (if v = [] then ''v000'' else v) @ ''-updated'')"
proof (cases "versionOf p")
  case None
  then show ?thesis
    by (cases "meta p") (simp_all add: updateMetaData_def versionOf_def emptyMeta_def Let_def)
next
  case (Some v)
  then obtain m where m: "meta p = Some m" "versionId m = Some v"
    by (cases "meta p") (simp_all add: versionOf_def)
  show ?thesis
  proof (cases "startsWith v ''v'' \<and> allDigits (drop 1 v)")
    case True
    then show ?thesis using m Some
      by (simp add: updateMetaData_def versionOf_def Let_def)
  next
    case False
    have nil: "\<not> allDigits []" by (simp add: allDigits_def)
    have "versionOf (updateMetaData env k p) = Some ((if v = [] then ''v000'' else v) @ ''-updated'')"
      using m False nil by (cases "v = []") (auto simp add: updateMetaData_def versionOf_def Let_def)
    then show ?thesis using Some False nil by auto
  qed
qed

lemma versionOf_telecom [simp]: "versionOf (p\<lparr>telecom := ts\<rparr>) = versionOf p"
  by (simp add: versionOf_def)

lemma versionOf_applyPhone:
  assumes "fst (applyPhone env k p phone)"
  shows "versionOf (snd (applyPhone env k p phone)) =
     Some (case versionOf p of
             None \<Rightarrow> ''v000-updated''
           | Some v \<Rightarrow>
               if startsWith v ''v'' \<and> allDigits (drop 1 v)
               then ''v'' @ padStart 3 CHR ''0'' (nextNumber env (drop 1 v))
               else (if v = [] then ''v000'' else v) @ ''-updated'')"
proof (cases rule: applyPhone_cases[of p phone env k])
  case (same i)
  with assms show ?thesis by simp
next
  case (other i)
  then show ?thesis by (simp only: snd_conv versionOf_updateMetaData versionOf_telecom)
next
  case absent
  then show ?thesis by (simp only: snd_conv versionOf_updateMetaData versionOf_telecom)
qed


text \<open>
  Claim C5, as the code has it. On every mutating call of \<open>applyPhone\<close> the version tag
  is updated: a tag \<open>v\<close> followed by digits (of a value below \<open>2^53\<close>) becomes \<open>v\<close>
  followed by the value plus one, padded with zeros on the left to at least three
  characters, whatever the width of the old suffix; any other tag gets \<open>-updated\<close>
  appended, and an absent or empty tag becomes \<open>v000-updated\<close>.
\<close>

theorem applyPhone_version:
  assumes "fst (applyPhone env k p phone)"
  shows "(versionOf p = Some (''v'' @ ds) \<and> allDigits ds \<and> int (parseInt ds) < 2 ^ 53 \<longrightarrow>
           (\<exists>t. versionOf (snd (applyPhone env k p phone)) = Some (''v'' @ t) \<and>
                t = padStart 3 CHR ''0'' (toString (parseInt ds + 1)) \<and>
                allDigits t \<and> parseInt t = parseInt ds + 1 \<and>
                length t = max 3 (length (toString (parseInt ds + 1))))) \<and>
         (versionOf p = Some v \<and> v \<noteq> [] \<and> \<not> (startsWith v ''v'' \<and> allDigits (drop 1 v)) \<longrightarrow>
            versionOf (snd (applyPhone env k p phone)) = Some (v @ ''-updated'')) \<and>
         (versionOf p = None \<or> versionOf p = Some [] \<longrightarrow>
            versionOf (snd (applyPhone env k p phone)) = Some ''v000-updated'')"
proof (intro conjI impI)
  note va = versionOf_applyPhone[OF assms]
  {
    assume a: "versionOf p = Some (''v'' @ ds) \<and> allDigits ds \<and> int (parseInt ds) < 2 ^ 53"
    have c: "startsWith (''v'' @ ds) ''v'' \<and> allDigits (drop 1 (''v'' @ ds))"
      using a by (simp add: startsWith_def)
    have n: "nextNumber env (drop 1 (''v'' @ ds)) = toString (parseInt ds + 1)"
      using a by (simp add: nextNumber_def)
    have "versionOf (snd (applyPhone env k p phone)) =
        Some (''v'' @ padStart 3 CHR ''0'' (nextNumber env (drop 1 (''v'' @ ds))))"
      unfolding va using a c by (simp only: option.case if_True simp_thms)
    then have "versionOf (snd (applyPhone env k p phone)) =
        Some (''v'' @ padStart 3 CHR ''0'' (toString (parseInt ds + 1)))"
      by (simp only: n)
    then show "\<exists>t. versionOf (snd (applyPhone env k p phone)) = Some (''v'' @ t) \<and>
                  t = padStart 3 CHR ''0'' (toString (parseInt ds + 1)) \<and>
                  allDigits t \<and> parseInt t = parseInt ds + 1 \<and>
                  length t = max 3 (length (toString (parseInt ds + 1)))"
      using padStart_digits[of "parseInt ds + 1"] by blast
  }
  {
    assume a: "versionOf p = Some v \<and> v \<noteq> [] \<and> \<not> (startsWith v ''v'' \<and> allDigits (drop 1 v))"
    show "versionOf (snd (applyPhone env k p phone)) = Some (v @ ''-updated'')"
      unfolding va using a by (simp only: option.case if_False simp_thms)
  }
  {
    assume a: "versionOf p = None \<or> versionOf p = Some []"
    from a show "versionOf (snd (applyPhone env k p phone)) = Some ''v000-updated''"
    proof
      assume "versionOf p = None"
      then show ?thesis unfolding va by simp
    next
      assume "versionOf p = Some []"
      then show ?thesis unfolding va by (simp add: allDigits_def)
    qed
  }
qed

theorem applyPhone_version_witness:
  "fst (applyPhone fixedEnv 0 (patientWith ''patient-002'' ''3578106207900002'' None (Some ''v010''))
          ''+6281234567890'') \<and>
   versionOf (snd (applyPhone fixedEnv 0
      (patientWith ''patient-002'' ''3578106207900002'' None (Some ''v010'')) ''+6281234567890''))
     = Some ''v011''"
proof -
  let ?p = "patientWith ''patient-002'' ''3578106207900002'' None (Some ''v010'')"
  have h: "fst (applyPhone fixedEnv 0 ?p ''+6281234567890'')"
    by (simp add: applyPhone_def Let_def record_eval)
  have v: "versionOf ?p = Some (''v'' @ ''010'')" "allDigits ''010''" "int (parseInt ''010'') < 2 ^ 53"
    "padStart 3 CHR ''0'' (toString (parseInt ''010'' + 1)) = ''011''"
    by (simp_all add: record_eval allDigits_def isDigit_def parseInt_def digitValue_def padStart_def
        toString.simps digitChar_def replicate_numeral)
  show ?thesis
    using h v applyPhone_version[OF h, of "''010''"] by simp
qed

text \<open>A suffix of width four is not padded back to four: \<open>v0010\<close> becomes \<open>v011\<close>.\<close>

theorem applyPhone_version_counterexample:
  "fst (applyPhone fixedEnv 0 (patientWith ''patient-002'' ''3578106207900002'' None (Some ''v0010''))
          ''+6281234567890'') \<and>
   versionOf (snd (applyPhone fixedEnv 0
      (patientWith ''patient-002'' ''3578106207900002'' None (Some ''v0010'')) ''+6281234567890''))
     = Some ''v011'' \<and>
   versionOf (snd (applyPhone fixedEnv 0
      (patientWith ''patient-002'' ''3578106207900002'' None (Some ''v0010'')) ''+6281234567890''))
     \<noteq> Some ''v0011''"
  by (simp add: record_eval applyPhone_eval)


section \<open>The reconciliation loop: statistics\<close>

lemma stats_recordInvalid:
  "stats (recordInvalid rep row rsn) =
     (if rsn = ''missing_patient''
      then (stats rep)\<lparr>missingPatient := missingPatient (stats rep) + 1\<rparr>
      else (stats rep)\<lparr>invalidFormat := invalidFormat (stats rep) + 1\<rparr>)"
  by (simp add: recordInvalid_def Let_def)

lemma stats_incTotal: "stats (incTotal rep) = (stats rep)\<lparr>totalRows := totalRows (stats rep) + 1\<rparr>"
  by (simp add: incTotal_def)

lemma stats_incUpdated: "stats (incUpdated rep) = (stats rep)\<lparr>validUpdated := validUpdated (stats rep) + 1\<rparr>"
  by (simp add: incUpdated_def)

lemma stats_incUnchanged: "stats (incUnchanged rep) = (stats rep)\<lparr>validUnchanged := validUnchanged (stats rep) + 1\<rparr>"
  by (simp add: incUnchanged_def)

text \<open>The four ways in which one row changes the statistics.\<close>

lemma processRow_stats:
  "stats (reporter (processRow env fmt st row)) \<in>
     {(stats (reporter st))\<lparr>totalRows := totalRows (stats (reporter st)) + 1,
                             validUpdated := validUpdated (stats (reporter st)) + 1\<rparr>,
      (stats (reporter st))\<lparr>totalRows := totalRows (stats (reporter st)) + 1,
                             validUnchanged := validUnchanged (stats (reporter st)) + 1\<rparr>,
      (stats (reporter st))\<lparr>totalRows := totalRows (stats (reporter st)) + 1,
                             invalidFormat := invalidFormat (stats (reporter st)) + 1\<rparr>,
      (stats (reporter st))\<lparr>totalRows := totalRows (stats (reporter st)) + 1,
                             missingPatient := missingPatient (stats (reporter st)) + 1\<rparr>}"
proof (cases "accepted (normalise fmt (rawPhone row))")
  case None
  then show ?thesis
    by (simp add: processRow_def Let_def stats_recordInvalid stats_incTotal)
next
  case (Some c)
  show ?thesis
  proof (cases "findByNik (repo st) (nik row)")
    case None
    then show ?thesis using Some
      by (simp add: processRow_def Let_def stats_recordInvalid stats_incTotal)
  next
    case (Some i)
    obtain changed p' where a: "applyPhone env (clock st) (patients (repo st) ! i) c = (changed, p')"
      by (cases "applyPhone env (clock st) (patients (repo st) ! i) c")
    show ?thesis using \<open>accepted (normalise fmt (rawPhone row)) = Some c\<close> Some a
      by (cases changed) (simp_all add: processRow_def Let_def stats_incUpdated stats_incUnchanged stats_incTotal)
  qed
qed

lemma processRow_counts:
  "totalRows (stats (reporter (processRow env fmt st row))) = totalRows (stats (reporter st)) + 1 \<and>
   outcomeSum (stats (reporter (processRow env fmt st row))) = outcomeSum (stats (reporter st)) + 1"
  using processRow_stats[of env fmt st row] by (auto simp: outcomeSum_def)

lemma processRows_counts:
  "totalRows (stats (reporter (processRows env fmt st rows))) = totalRows (stats (reporter st)) + length rows \<and>
   outcomeSum (stats (reporter (processRows env fmt st rows))) = outcomeSum (stats (reporter st)) + length rows"
proof (induction rows arbitrary: st)
  case Nil
  then show ?case by (simp add: processRows_def)
next
  case (Cons r rows)
  have "processRows env fmt st (r # rows) = processRows env fmt (processRow env fmt st r) rows"
    by (simp add: processRows_def)
  then show ?case using Cons[of "processRow env fmt st r"] processRow_counts[of env fmt st r]
    by simp
qed

lemma stats_runSorted:
  "stats (reporter (runSorted env fmt st rows)) = stats (reporter (processRows env fmt st rows))"
  by (simp add: runSorted_def Let_def writeOutputs_def)

text \<open>
  Claim C1. For every run of the reconciliation loop over any row sequence, started with a
  new reporter, the statistics at the end satisfy \<open>totalRows = validUpdated +
  validUnchanged + invalidFormat + missingPatient\<close>, and \<open>totalRows\<close> is the number of
  rows; that holds for a run on the content of any sheet file as well. Each row adds one
  to \<open>totalRows\<close> and one to exactly one of the four outcome counters.
\<close>

theorem run_sum_invariant:
  "totalRows (stats (reporter (runSorted env fmt \<lparr>repo = rp, reporter = newUpdateReporter, clock = k\<rparr> rows)))
     = outcomeSum (stats (reporter (runSorted env fmt \<lparr>repo = rp, reporter = newUpdateReporter, clock = k\<rparr> rows))) \<and>
   totalRows (stats (reporter (runSorted env fmt \<lparr>repo = rp, reporter = newUpdateReporter, clock = k\<rparr> rows)))
     = length rows \<and>
   totalRows (stats (reporter (run env fmt (initialState ps) content)))
     = outcomeSum (stats (reporter (run env fmt (initialState ps) content))) \<and>
   stats (reporter (processRow env fmt st row)) \<in>
     {(stats (reporter st))\<lparr>totalRows := totalRows (stats (reporter st)) + 1,
                             validUpdated := validUpdated (stats (reporter st)) + 1\<rparr>,
      (stats (reporter st))\<lparr>totalRows := totalRows (stats (reporter st)) + 1,
                             validUnchanged := validUnchanged (stats (reporter st)) + 1\<rparr>,
      (stats (reporter st))\<lparr>totalRows := totalRows (stats (reporter st)) + 1,
                             invalidFormat := invalidFormat (stats (reporter st)) + 1\<rparr>,
      (stats (reporter st))\<lparr>totalRows := totalRows (stats (reporter st)) + 1,
                             missingPatient := missingPatient (stats (reporter st)) + 1\<rparr>}"
proof -
  have z: "totalRows (stats newUpdateReporter) = 0" "outcomeSum (stats newUpdateReporter) = 0"
    by (simp_all add: newUpdateReporter_def outcomeSum_def)
  have 1: "totalRows (stats (reporter (runSorted env fmt \<lparr>repo = r, reporter = newUpdateReporter, clock = c\<rparr> rs))) = length rs \<and>
        outcomeSum (stats (reporter (runSorted env fmt \<lparr>repo = r, reporter = newUpdateReporter, clock = c\<rparr> rs))) = length rs"
    for r c rs
    using processRows_counts[of env fmt "\<lparr>repo = r, reporter = newUpdateReporter, clock = c\<rparr>" rs] z
    by (simp add: stats_runSorted)
  have 2: "totalRows (stats (reporter (run env fmt (initialState ps) content)))
     = outcomeSum (stats (reporter (run env fmt (initialState ps) content)))"
    using 1[of "InMemoryPatientRepository ps" 0 "loadRows content"]
    by (simp add: run_def initialState_def)
  from 1[of rp k rows] 2 processRow_stats[of env fmt st row] show ?thesis
    by (intro conjI) simp_all
qed


section \<open>The ordering step\<close>

lemma parseDate_no_match: "matchDate d = None \<Longrightarrow> parseDate d = 0"
  by (simp add: parseDate_def)

lemma mset_sortRows: "mset (sortRows rows) = mset rows"
  by (simp add: sortRows_def)

lemma set_sortRows: "set (sortRows rows) = set rows"
  by (simp add: sortRows_def)

lemma length_sortRows: "length (sortRows rows) = length rows"
  by (simp add: sortRows_def)

lemma sorted_sortRows: "sorted (map (\<lambda>r. parseDate (lastUpdatedDate r)) (sortRows rows))"
  by (simp add: sortRows_def)

text \<open>The sort is stable: rows with the same key keep their order.\<close>

lemma stable_sortRows:
  "filter (\<lambda>r. parseDate (lastUpdatedDate r) = t) (sortRows rows) =
   filter (\<lambda>r. parseDate (lastUpdatedDate r) = t) rows"
  by (simp add: sortRows_def sort_key_stable)

lemma sortRows_order:
  assumes "i < length (sortRows rows)" "j < length (sortRows rows)"
    and "parseDate (lastUpdatedDate (sortRows rows ! j)) < parseDate (lastUpdatedDate (sortRows rows ! i))"
  shows "j < i"
proof (rule ccontr)
  assume "\<not> j < i"
  then have "i \<le> j" by simp
  with sorted_sortRows[of rows] assms(2)
  have "map (\<lambda>r. parseDate (lastUpdatedDate r)) (sortRows rows) ! i \<le>
        map (\<lambda>r. parseDate (lastUpdatedDate r)) (sortRows rows) ! j"
    by (intro sorted_nth_mono) simp_all
  with assms show False by simp
qed

lemma totalRows_runRows:
  "totalRows (stats (reporter (runRows env fmt st rows))) = totalRows (stats (reporter st)) + length rows"
  using processRows_counts[of env fmt st "sortRows rows"]
  by (simp add: runRows_def stats_runSorted length_sortRows)

lemmas DateUTC_eval =
  DateUTC_def TimeClip_def MakeDay_def MakeFullYear_def DayFromYear_def InLeapYear_def
  daysBeforeMonth_def msPerDay_def Let_def

lemma parseDate_matched:
  assumes "matchDate d = Some (dd, mm, yyyy)"
    and "DateUTC (int (parseInt yyyy)) (int (parseInt mm) - 1) (int (parseInt dd)) = Some ts"
  shows "parseDate d = ts"
proof -
  from assms(1) have "d \<noteq> []" by (auto simp: matchDate_def split: if_splits)
  then show ?thesis using assms by (simp add: parseDate_def)
qed

lemma parseDate_1969: "parseDate ''31-12-1969'' = - 86400000"
proof (rule parseDate_matched)
  show "matchDate ''31-12-1969'' = Some (''31'', ''12'', ''1969'')"
    by (simp add: matchDate_def isDateSep_def isDigit_def)
  have "parseInt ''1969'' = 1969" "parseInt ''12'' = 12" "parseInt ''31'' = 31"
    by (simp_all add: parseInt_def digitValue_def)
  then show "DateUTC (int (parseInt ''1969'')) (int (parseInt ''12'') - 1) (int (parseInt ''31'')) = Some (- 86400000)"
    by (simp add: DateUTC_eval)
qed

lemma parseDate_text: "matchDate ''not a date'' = None"
  by (simp add: matchDate_def isDateSep_def isDigit_def)

text \<open>A row whose date does not parse gets the key 0, the epoch: in the sorted sequence it
  stands before every row whose parsed date is later than the epoch. It is kept by the
  ordering step and processed, so that a run with the row counts one row more than the run
  without it.\<close>

lemma unparsable_date_kept:
  assumes "matchDate (lastUpdatedDate r) = None"
  shows "parseDate (lastUpdatedDate r) = 0 \<and>
    (\<forall>i j. i < length (sortRows (xs @ r # ys)) \<and> j < length (sortRows (xs @ r # ys)) \<and>
        sortRows (xs @ r # ys) ! j = r \<and>
        0 < parseDate (lastUpdatedDate (sortRows (xs @ r # ys) ! i)) \<longrightarrow> j < i) \<and>
    mset (sortRows (xs @ r # ys)) = mset (xs @ r # ys) \<and>
    totalRows (stats (reporter (runRows env fmt st (xs @ r # ys)))) =
      totalRows (stats (reporter (runRows env fmt st (xs @ ys)))) + 1"
proof (intro conjI allI impI)
  show z: "parseDate (lastUpdatedDate r) = 0"
    using assms by (rule parseDate_no_match)
  show "mset (sortRows (xs @ r # ys)) = mset (xs @ r # ys)"
    by (rule mset_sortRows)
  show "totalRows (stats (reporter (runRows env fmt st (xs @ r # ys)))) =
      totalRows (stats (reporter (runRows env fmt st (xs @ ys)))) + 1"
    by (simp add: totalRows_runRows)
  fix i j
  assume a: "i < length (sortRows (xs @ r # ys)) \<and> j < length (sortRows (xs @ r # ys)) \<and>
        sortRows (xs @ r # ys) ! j = r \<and>
        0 < parseDate (lastUpdatedDate (sortRows (xs @ r # ys) ! i))"
  then show "j < i"
    using z by (intro sortRows_order[of i "xs @ r # ys" j]) simp_all
qed

lemma parseDate_01_01_1970: "parseDate ''01-01-1970'' = 0"
proof (rule parseDate_matched)
  show "matchDate ''01-01-1970'' = Some (''01'', ''01'', ''1970'')"
    by (simp add: matchDate_def isDateSep_def isDigit_def)
  have "parseInt ''1970'' = 1970" "parseInt ''01'' = 1"
    by (simp_all add: parseInt_def digitValue_def)
  then show "DateUTC (int (parseInt ''1970'')) (int (parseInt ''01'') - 1) (int (parseInt ''01'')) = Some 0"
    by (simp add: DateUTC_eval)
qed

text \<open>
  Claim C6 asks that a row whose date fails to parse is treated as the oldest possible date,
  sorted before every row that has a parsable date, and still processed. The second half
  holds (\<open>unparsable_date_kept\<close>). The first half fails where a parsable date is not later
  than the epoch: the key 0 of the unparsable row is not below the key of such a date. Given
  before a row dated 31-12-1969, the unparsable row is sorted behind it; given after a row
  dated 01-01-1970, it stays behind it.
\<close>

theorem unparsable_date_not_oldest:
  "matchDate ''31-12-1969'' = Some (''31'', ''12'', ''1969'') \<and>
   matchDate ''01-01-1970'' = Some (''01'', ''01'', ''1970'') \<and>
   matchDate ''not a date'' = None \<and>
   sortRows [sheetRow ''not a date'' ''3171044203920001'' ''081234567890'',
             sheetRow ''31-12-1969'' ''3171044203920001'' ''081234567890''] =
     [sheetRow ''31-12-1969'' ''3171044203920001'' ''081234567890'',
      sheetRow ''not a date'' ''3171044203920001'' ''081234567890''] \<and>
   sortRows [sheetRow ''01-01-1970'' ''3171044203920001'' ''081234567890'',
             sheetRow ''not a date'' ''3171044203920001'' ''081234567890''] =
     [sheetRow ''01-01-1970'' ''3171044203920001'' ''081234567890'',
      sheetRow ''not a date'' ''3171044203920001'' ''081234567890'']"
proof -
  have m: "matchDate ''31-12-1969'' = Some (''31'', ''12'', ''1969'')"
    "matchDate ''01-01-1970'' = Some (''01'', ''01'', ''1970'')"
    by (simp_all add: matchDate_def isDateSep_def isDigit_def)
  have k: "parseDate (lastUpdatedDate (sheetRow ''not a date'' ''3171044203920001'' ''081234567890'')) = 0"
    "parseDate (lastUpdatedDate (sheetRow ''31-12-1969'' ''3171044203920001'' ''081234567890'')) = - 86400000"
    "parseDate (lastUpdatedDate (sheetRow ''01-01-1970'' ''3171044203920001'' ''081234567890'')) = 0"
    by (simp_all add: sheetRow_def parseDate_1969 parseDate_01_01_1970 parseDate_no_match parseDate_text)
  have s: "sortRows [sheetRow ''not a date'' ''3171044203920001'' ''081234567890'',
             sheetRow ''31-12-1969'' ''3171044203920001'' ''081234567890''] =
     [sheetRow ''31-12-1969'' ''3171044203920001'' ''081234567890'',
      sheetRow ''not a date'' ''3171044203920001'' ''081234567890'']"
    "sortRows [sheetRow ''01-01-1970'' ''3171044203920001'' ''081234567890'',
             sheetRow ''not a date'' ''3171044203920001'' ''081234567890''] =
     [sheetRow ''01-01-1970'' ''3171044203920001'' ''081234567890'',
      sheetRow ''not a date'' ''3171044203920001'' ''081234567890'']"
    unfolding sortRows_def by (simp_all add: k)
  from m parseDate_text s show ?thesis by (intro conjI)
qed

section \<open>The reconciliation loop: the last update wins\<close>

subsection \<open>The repository built by the constructor\<close>

lemma indexIdentifiers_Some:
  assumes "indexIdentifiers i ids m n = Some j"
  shows "m n = Some j \<or> (j = i \<and> (\<exists>x\<in>set ids. id_system x = NIK_SYSTEM \<and> id_value x = n))"
  using assms unfolding indexIdentifiers_def
proof (induction ids arbitrary: m)
  case Nil
  then show ?case by simp
next
  case (Cons x ids)
  let ?m = "if id_system x = NIK_SYSTEM then m(id_value x \<mapsto> i) else m"
  from Cons.prems have "foldl (\<lambda>m ident. if id_system ident = NIK_SYSTEM then m(id_value ident \<mapsto> i) else m) ?m ids n = Some j"
    by simp
  from Cons.IH[OF this] show ?case
    by (auto split: if_splits)
qed

lemma byNik_fold_Some:
  assumes "foldl (\<lambda>m i. indexIdentifiers i (identifiersOf (ps ! i)) m) m0 is n = Some j"
  shows "m0 n = Some j \<or>
         (j \<in> set is \<and> (\<exists>x\<in>set (identifiersOf (ps ! j)). id_system x = NIK_SYSTEM \<and> id_value x = n))"
  using assms
proof (induction "is" arbitrary: m0)
  case Nil
  then show ?case by simp
next
  case (Cons i "is")
  from Cons.prems
  have "foldl (\<lambda>m i. indexIdentifiers i (identifiersOf (ps ! i)) m)
          (indexIdentifiers i (identifiersOf (ps ! i)) m0) is n = Some j"
    by simp
  from Cons.IH[OF this] indexIdentifiers_Some[of i "identifiersOf (ps ! i)" m0 n j]
  show ?case by auto
qed

lemma findByNik_constructed:
  assumes "findByNik (InMemoryPatientRepository ps) n = Some j"
  shows "j < length ps \<and> (\<exists>x\<in>set (identifiersOf (ps ! j)). id_system x = NIK_SYSTEM \<and> id_value x = n)"
  using byNik_fold_Some[of ps Map.empty "[0..<length ps]" n j] assms
  by (simp add: findByNik_def InMemoryPatientRepository_def)

text \<open>With at most one national identifier on each record, two identifiers that find the
  same record are equal.\<close>

lemma findByNik_single_identifier:
  assumes "\<forall>p\<in>set ps. length (filter (\<lambda>x. id_system x = NIK_SYSTEM) (identifiersOf p)) \<le> 1"
    and "findByNik (InMemoryPatientRepository ps) n = Some j"
    and "findByNik (InMemoryPatientRepository ps) n' = Some j"
  shows "n = n'"
proof -
  from findByNik_constructed[OF assms(2)] obtain x where
    x: "j < length ps" "x \<in> set (identifiersOf (ps ! j))" "id_system x = NIK_SYSTEM" "id_value x = n"
    by blast
  from findByNik_constructed[OF assms(3)] obtain y where
    y: "y \<in> set (identifiersOf (ps ! j))" "id_system y = NIK_SYSTEM" "id_value y = n'"
    by blast
  from assms(1) x(1) have "length (filter (\<lambda>x. id_system x = NIK_SYSTEM) (identifiersOf (ps ! j))) \<le> 1"
    by simp
  from filter_single_eq[OF this x(2,3) y(1,2)] x(4) y(3) show ?thesis by simp
qed

subsection \<open>What one row does to the repository\<close>

lemma processRow_repo_shape:
  "byNik (repo (processRow env fmt st row)) = byNik (repo st) \<and>
   length (patients (repo (processRow env fmt st row))) = length (patients (repo st))"
proof (cases "accepted (normalise fmt (rawPhone row))")
  case None
  then show ?thesis by (simp add: processRow_def Let_def)
next
  case (Some c)
  show ?thesis
  proof (cases "findByNik (repo st) (nik row)")
    case None
    then show ?thesis using Some by (simp add: processRow_def Let_def)
  next
    case (Some i)
    obtain changed p' where a: "applyPhone env (clock st) (patients (repo st) ! i) c = (changed, p')"
      by (cases "applyPhone env (clock st) (patients (repo st) ! i) c")
    show ?thesis using \<open>accepted (normalise fmt (rawPhone row)) = Some c\<close> Some a
      by (cases changed) (simp_all add: processRow_def Let_def)
  qed
qed

lemma processRows_repo_shape:
  "byNik (repo (processRows env fmt st rows)) = byNik (repo st) \<and>
   length (patients (repo (processRows env fmt st rows))) = length (patients (repo st))"
proof (induction rows arbitrary: st)
  case Nil
  then show ?case by (simp add: processRows_def)
next
  case (Cons r rows)
  have "processRows env fmt st (r # rows) = processRows env fmt (processRow env fmt st r) rows"
    by (simp add: processRows_def)
  then show ?case using Cons[of "processRow env fmt st r"] processRow_repo_shape[of env fmt st r]
    by simp
qed

lemma processRow_other_patient:
  assumes "accepted (normalise fmt (rawPhone row)) = None \<or> findByNik (repo st) (nik row) \<noteq> Some i"
  shows "patients (repo (processRow env fmt st row)) ! i = patients (repo st) ! i"
proof (cases "accepted (normalise fmt (rawPhone row))")
  case None
  then show ?thesis by (simp add: processRow_def Let_def)
next
  case (Some c)
  show ?thesis
  proof (cases "findByNik (repo st) (nik row)")
    case None
    then show ?thesis using Some by (simp add: processRow_def Let_def)
  next
    case (Some j)
    with assms \<open>accepted (normalise fmt (rawPhone row)) = Some c\<close> have ne: "j \<noteq> i" by auto
    obtain changed p' where a: "applyPhone env (clock st) (patients (repo st) ! j) c = (changed, p')"
      by (cases "applyPhone env (clock st) (patients (repo st) ! j) c")
    show ?thesis using \<open>accepted (normalise fmt (rawPhone row)) = Some c\<close> Some a ne
      by (cases changed) (simp_all add: processRow_def Let_def)
  qed
qed

lemma processRows_other_patient:
  assumes "\<forall>q\<in>set rows. accepted (normalise fmt (rawPhone q)) = None \<or> findByNik (repo st) (nik q) \<noteq> Some i"
  shows "patients (repo (processRows env fmt st rows)) ! i = patients (repo st) ! i"
  using assms
proof (induction rows arbitrary: st)
  case Nil
  then show ?case by (simp add: processRows_def)
next
  case (Cons r rows)
  let ?st = "processRow env fmt st r"
  have e: "processRows env fmt st (r # rows) = processRows env fmt ?st rows"
    by (simp add: processRows_def)
  have same: "findByNik (repo ?st) = findByNik (repo st)"
    using processRow_repo_shape[of env fmt st r] by (simp add: findByNik_def fun_eq_iff)
  have "patients (repo (processRows env fmt ?st rows)) ! i = patients (repo ?st) ! i"
    using Cons.prems by (intro Cons.IH) (simp add: same)
  moreover have "patients (repo ?st) ! i = patients (repo st) ! i"
    using Cons.prems by (intro processRow_other_patient) simp
  ultimately show ?case by (simp add: e)
qed

lemma processRow_this_patient:
  assumes "accepted (normalise fmt (rawPhone row)) = Some c"
    and "findByNik (repo st) (nik row) = Some i" and "i < length (patients (repo st))"
  shows "mobilePhoneValue (patients (repo (processRow env fmt st row)) ! i) = Some c"
proof -
  obtain changed p' where a: "applyPhone env (clock st) (patients (repo st) ! i) c = (changed, p')"
    by (cases "applyPhone env (clock st) (patients (repo st) ! i) c")
  have "mobilePhoneValue p' = Some c"
    using mobilePhoneValue_applyPhone[of env "clock st" "patients (repo st) ! i" c] a by simp
  moreover have "patients (repo (processRow env fmt st row)) ! i = p'"
    using assms a by (cases changed) (simp_all add: processRow_def Let_def)
  ultimately show ?thesis by simp
qed

lemma processRows_append:
  "processRows env fmt st (xs @ ys) = processRows env fmt (processRows env fmt st xs) ys"
  by (simp add: processRows_def)

lemma accepted_valid:
  assumes "valid (normalise fmt s)"
  shows "\<exists>c. accepted (normalise fmt s) = Some c \<and> canonical (normalise fmt s) = Some c"
proof -
  from normalise_form[of fmt s] obtain canon where
    "(normalise fmt s = finish fmt (trim s) canon \<and> startsWith canon ''+62'' \<and>
        list_all isDigit (drop 1 canon)) \<or>
     normalise fmt s = build (trim s) None False (Some ''empty'') \<or>
     normalise fmt s = build (trim s) None False (Some ''non_digit'') \<or>
     normalise fmt s = build (trim s) None False (Some ''length'')"
    by blast
  with assms have n: "normalise fmt s = finish fmt (trim s) canon" by auto
  with assms have "valid (finish fmt (trim s) canon)" by simp
  note fv = finish_valid[OF this]
  have "(if fmt = local0 then ''0'' @ drop 3 canon else canon) \<noteq> []"
    using fv by auto
  then show ?thesis using fv assms by (simp add: accepted_def n)
qed


lemma repo_runSorted: "repo (runSorted env fmt st rows) = repo (processRows env fmt st rows)"
  by (simp add: runSorted_def Let_def)

text \<open>After a run over rows of which the last one that reaches patient \<open>i\<close> is \<open>r\<close>, the
  patient carries the canonical value of \<open>r\<close>.\<close>

lemma last_row_wins:
  assumes i: "findByNik (repo st) (nik r) = Some i" "i < length (patients (repo st))"
    and v: "valid (normalise fmt (rawPhone r))"
    and post: "\<forall>q\<in>set post. findByNik (repo st) (nik q) \<noteq> Some i"
  shows "mobilePhoneValue (patients (repo (processRows env fmt st (pre @ r # post))) ! i) =
         canonical (normalise fmt (rawPhone r))"
proof -
  let ?st1 = "processRows env fmt st pre"
  let ?st2 = "processRow env fmt ?st1 r"
  from accepted_valid[OF v] obtain c where
    c: "accepted (normalise fmt (rawPhone r)) = Some c" "canonical (normalise fmt (rawPhone r)) = Some c"
    by blast
  have s1: "findByNik (repo ?st1) = findByNik (repo st)"
    "length (patients (repo ?st1)) = length (patients (repo st))"
    using processRows_repo_shape[of env fmt st pre] by (simp_all add: findByNik_def fun_eq_iff)
  have s2: "findByNik (repo ?st2) = findByNik (repo st)"
    using processRow_repo_shape[of env fmt ?st1 r] s1 by (simp add: findByNik_def fun_eq_iff)
  have "mobilePhoneValue (patients (repo ?st2) ! i) = Some c"
    using c(1) i s1 by (intro processRow_this_patient) simp_all
  moreover have "patients (repo (processRows env fmt ?st2 post)) ! i = patients (repo ?st2) ! i"
    using post by (intro processRows_other_patient) (simp add: s2)
  moreover have "processRows env fmt st (pre @ r # post) = processRows env fmt ?st2 post"
    by (simp add: processRows_def)
  ultimately show ?thesis using c(2) by simp
qed

lemma parseDate_22_09_2025: "parseDate ''22-09-2025'' = 1758499200000"
proof (rule parseDate_matched)
  show "matchDate ''22-09-2025'' = Some (''22'', ''09'', ''2025'')"
    by (simp add: matchDate_def isDateSep_def isDigit_def)
  have "parseInt ''2025'' = 2025" "parseInt ''09'' = 9" "parseInt ''22'' = 22"
    by (simp_all add: parseInt_def digitValue_def)
  then show "DateUTC (int (parseInt ''2025'')) (int (parseInt ''09'') - 1) (int (parseInt ''22'')) = Some 1758499200000"
    by (simp add: DateUTC_eval)
qed

lemma parseDate_23_09_2025: "parseDate ''23-09-2025'' = 1758585600000"
proof (rule parseDate_matched)
  show "matchDate ''23-09-2025'' = Some (''23'', ''09'', ''2025'')"
    by (simp add: matchDate_def isDateSep_def isDigit_def)
  have "parseInt ''2025'' = 2025" "parseInt ''09'' = 9" "parseInt ''23'' = 23"
    by (simp_all add: parseInt_def digitValue_def)
  then show "DateUTC (int (parseInt ''2025'')) (int (parseInt ''09'') - 1) (int (parseInt ''23'')) = Some 1758585600000"
    by (simp add: DateUTC_eval)
qed

lemma example_findByNik:
  "findByNik (InMemoryPatientRepository examplePatients) ''3171044203920001'' = Some 0"
  "findByNik (InMemoryPatientRepository examplePatients) ''3578106207900002'' = Some 1"
  by (simp_all add: findByNik_def InMemoryPatientRepository_def indexIdentifiers_def
      identifiersOf_def examplePatients_def patientWith_def)

lemma example_phones:
  "valid (normalise e164 ''+6281234567890'')"
  "canonical (normalise e164 ''+6281234567890'') = Some ''+6281234567890''"
  "valid (normalise e164 ''081234567891'')"
  by (simp_all add: normalise_eval)

lemma parseDate_31_04_2025: "parseDate ''31-04-2025'' = 1746057600000"
proof (rule parseDate_matched)
  show "matchDate ''31-04-2025'' = Some (''31'', ''04'', ''2025'')"
    by (simp add: matchDate_def isDateSep_def isDigit_def)
  have "parseInt ''2025'' = 2025" "parseInt ''04'' = 4" "parseInt ''31'' = 31"
    by (simp_all add: parseInt_def digitValue_def)
  then show "DateUTC (int (parseInt ''2025'')) (int (parseInt ''04'') - 1) (int (parseInt ''31'')) = Some 1746057600000"
    by (simp add: DateUTC_eval)
qed

lemma parseDate_01_05_2025: "parseDate ''01-05-2025'' = 1746057600000"
proof (rule parseDate_matched)
  show "matchDate ''01-05-2025'' = Some (''01'', ''05'', ''2025'')"
    by (simp add: matchDate_def isDateSep_def isDigit_def)
  have "parseInt ''2025'' = 2025" "parseInt ''05'' = 5" "parseInt ''01'' = 1"
    by (simp_all add: parseInt_def digitValue_def)
  then show "DateUTC (int (parseInt ''2025'')) (int (parseInt ''05'') - 1) (int (parseInt ''01'')) = Some 1746057600000"
    by (simp add: DateUTC_eval)
qed

lemma parseDate_24_09_2025: "parseDate ''24-09-2025'' = 1758672000000"
proof (rule parseDate_matched)
  show "matchDate ''24-09-2025'' = Some (''24'', ''09'', ''2025'')"
    by (simp add: matchDate_def isDateSep_def isDigit_def)
  have "parseInt ''2025'' = 2025" "parseInt ''09'' = 9" "parseInt ''24'' = 24"
    by (simp_all add: parseInt_def digitValue_def)
  then show "DateUTC (int (parseInt ''2025'')) (int (parseInt ''09'') - 1) (int (parseInt ''24'')) = Some 1758672000000"
    by (simp add: DateUTC_eval)
qed

lemma example_more_phones:
  "valid (normalise e164 ''081234567891'')"
  "canonical (normalise e164 ''081234567891'') = Some ''+6281234567891''"
  "valid (normalise e164 ''081234567892'')"
  "canonical (normalise e164 ''081234567892'') = Some ''+6281234567892''"
  "valid (normalise e164 ''081234567893'')"
  "canonical (normalise e164 ''081234567893'') = Some ''+6281234567893''"
  by (simp_all add: normalise_eval)

lemma twoIdentifier_findByNik:
  "findByNik (InMemoryPatientRepository [twoIdentifierPatient]) ''1111111111111111'' = Some 0"
  "findByNik (InMemoryPatientRepository [twoIdentifierPatient]) ''2222222222222222'' = Some 0"
  by (simp_all add: findByNik_def InMemoryPatientRepository_def indexIdentifiers_def
      identifiersOf_def twoIdentifierPatient_def)

lemma repo_initialState: "repo (initialState ps) = InMemoryPatientRepository ps"
  by (simp add: initialState_def)

lemma patients_constructed: "patients (InMemoryPatientRepository ps) = ps"
  by (simp add: InMemoryPatientRepository_def)

text \<open>The run on rows that the ordering step leaves as they are.\<close>

lemma runRows_last:
  assumes "sortRows rows = pre @ [r]"
    and "findByNik (InMemoryPatientRepository ps) (nik r) = Some i"
    and "valid (normalise fmt (rawPhone r))"
  shows "mobilePhoneValue (patients (repo (runRows env fmt (initialState ps) rows)) ! i) =
         canonical (normalise fmt (rawPhone r))"
proof -
  have "i < length ps" using findByNik_constructed[OF assms(2)] by simp
  then have "mobilePhoneValue (patients (repo (processRows env fmt (initialState ps) (pre @ r # []))) ! i) =
         canonical (normalise fmt (rawPhone r))"
    using assms(2,3) by (intro last_row_wins) (simp_all add: repo_initialState patients_constructed)
  then show ?thesis by (simp add: runRows_def repo_runSorted assms(1))
qed

text \<open>
  Claim C3, as the code has it. Take any row sequence, an identifier \<open>n\<close> that finds a
  patient, and suppose that the rows with the identifier \<open>n\<close> have pairwise distinct parsed
  dates (timestamps) and phone values that normalise to valid canonical values, and that
  rows with another identifier find other patients or none, as they do when every record
  carries one national identifier. Then after the run the phone value of that patient is
  the canonical value of the row with the latest parsed date among them, in whatever order
  the rows are given.
\<close>

theorem latest_row_wins:
  assumes found: "findByNik (InMemoryPatientRepository ps) n = Some i"
    and others: "\<forall>q\<in>set rows. findByNik (InMemoryPatientRepository ps) (nik q) = Some i \<longrightarrow> nik q = n"
    and phones: "\<forall>q\<in>set rows. nik q = n \<longrightarrow> valid (normalise fmt (rawPhone q))"
    and dates: "distinct (map (\<lambda>q. parseDate (lastUpdatedDate q)) (filter (\<lambda>q. nik q = n) rows))"
    and r: "r \<in> set rows" "nik r = n"
    and latest: "\<forall>q\<in>set rows. nik q = n \<longrightarrow> parseDate (lastUpdatedDate q) \<le> parseDate (lastUpdatedDate r)"
    and order: "mset rows' = mset rows"
  shows "mobilePhoneValue (patients (repo (runRows env fmt (initialState ps) rows')) ! i) =
         canonical (normalise fmt (rawPhone r))"
proof -
  let ?key = "\<lambda>q. parseDate (lastUpdatedDate q)"
  let ?st = "initialState ps"
  have rp: "repo ?st = InMemoryPatientRepository ps" by (simp add: initialState_def)
  have sets: "set (sortRows rows') = set rows"
    using mset_eq_setD[OF order] by (simp add: set_sortRows)
  then have "r \<in> set (sortRows rows')" using r(1) by simp
  from split_list_last[OF this]
  obtain pre post where sp: "sortRows rows' = pre @ r # post" and np: "r \<notin> set post"
    by blast
  have inj: "inj_on ?key (set (filter (\<lambda>q. nik q = n) rows))"
    using dates by (simp add: distinct_map)
  have post: "\<forall>q\<in>set post. findByNik (repo ?st) (nik q) \<noteq> Some i"
  proof (intro ballI notI)
    fix q
    assume q: "q \<in> set post" and f: "findByNik (repo ?st) (nik q) = Some i"
    from q sp sets have qr: "q \<in> set rows" by auto
    with f others rp have qn: "nik q = n" by simp
    have "sorted (map ?key (pre @ r # post))"
      using sorted_sortRows[of rows'] by (simp only: sp)
    with q have "?key r \<le> ?key q"
      by (simp add: sorted_append)
    moreover from latest qr qn have "?key q \<le> ?key r" by simp
    ultimately have "?key q = ?key r" by simp
    moreover have "q \<in> set (filter (\<lambda>q. nik q = n) rows)" "r \<in> set (filter (\<lambda>q. nik q = n) rows)"
      using qr qn r by simp_all
    ultimately have "q = r" using inj by (blast dest: inj_onD)
    with q np show False by simp
  qed
  have "mobilePhoneValue (patients (repo (processRows env fmt ?st (pre @ r # post))) ! i) =
         canonical (normalise fmt (rawPhone r))"
  proof (rule last_row_wins)
    show "findByNik (repo ?st) (nik r) = Some i" using found r(2) rp by simp
    show "i < length (patients (repo ?st))"
      using findByNik_constructed[OF found] by (simp add: rp InMemoryPatientRepository_def)
    show "valid (normalise fmt (rawPhone r))" using phones r by simp
    show "\<forall>q\<in>set post. findByNik (repo ?st) (nik q) \<noteq> Some i" by (rule post)
  qed
  then show ?thesis by (simp add: runRows_def repo_runSorted sp)
qed


theorem latest_row_wins_witness:
  "findByNik (InMemoryPatientRepository examplePatients) ''3171044203920001'' = Some 0 \<and>
   distinct (map (\<lambda>q. parseDate (lastUpdatedDate q))
     (filter (\<lambda>q. nik q = ''3171044203920001'') exampleRows)) \<and>
   mset (rev exampleRows) = mset exampleRows \<and>
   mobilePhoneValue (patients (repo (runRows fixedEnv e164 (initialState examplePatients) exampleRows)) ! 0) =
     Some ''+6281234567890'' \<and>
   mobilePhoneValue (patients (repo (runRows fixedEnv e164 (initialState examplePatients) (rev exampleRows))) ! 0) =
     Some ''+6281234567890''"
proof -
  let ?r = "sheetRow ''23-09-2025'' ''3171044203920001'' ''+6281234567890''"
  have found: "findByNik (InMemoryPatientRepository examplePatients) ''3171044203920001'' = Some 0"
    by (rule example_findByNik)
  have others: "\<forall>q\<in>set exampleRows.
      findByNik (InMemoryPatientRepository examplePatients) (nik q) = Some 0 \<longrightarrow> nik q = ''3171044203920001''"
    by (simp add: exampleRows_def sheetRow_def example_findByNik)
  have phones: "\<forall>q\<in>set exampleRows. nik q = ''3171044203920001'' \<longrightarrow> valid (normalise e164 (rawPhone q))"
    by (simp add: exampleRows_def sheetRow_def example_phones)
  have dates: "distinct (map (\<lambda>q. parseDate (lastUpdatedDate q))
     (filter (\<lambda>q. nik q = ''3171044203920001'') exampleRows))"
    by (simp add: exampleRows_def sheetRow_def parseDate_22_09_2025 parseDate_23_09_2025)
  have r: "?r \<in> set exampleRows" "nik ?r = ''3171044203920001''"
    by (simp_all add: exampleRows_def sheetRow_def)
  have latest: "\<forall>q\<in>set exampleRows. nik q = ''3171044203920001'' \<longrightarrow>
      parseDate (lastUpdatedDate q) \<le> parseDate (lastUpdatedDate ?r)"
    by (simp add: exampleRows_def sheetRow_def parseDate_22_09_2025 parseDate_23_09_2025)
  have order: "mset (rev exampleRows) = mset exampleRows" by simp
  have c: "canonical (normalise e164 (rawPhone ?r)) = Some ''+6281234567890''"
    by (simp add: sheetRow_def example_phones)
  from latest_row_wins[OF found others phones dates r latest order, of fixedEnv]
    latest_row_wins[OF found others phones dates r latest refl, of fixedEnv]
    found dates order c
  show ?thesis by simp
qed

text \<open>Two date texts that differ and parse to the same timestamp, since \<open>Date.UTC\<close>
  carries day 31 of April over into May: the later row of the input wins, so the result
  depends on the order. And a record with two national identifiers: the row under the
  second identifier overwrites the value of the latest row under the first.\<close>

theorem latest_row_wins_counterexample:
  "matchDate ''31-04-2025'' = Some (''31'', ''04'', ''2025'') \<and>
   matchDate ''01-05-2025'' = Some (''01'', ''05'', ''2025'') \<and>
   mobilePhoneValue (patients (repo (runRows fixedEnv e164 (initialState examplePatients)
      [sheetRow ''31-04-2025'' ''3171044203920001'' ''081234567891'',
       sheetRow ''01-05-2025'' ''3171044203920001'' ''081234567892''])) ! 0) = Some ''+6281234567892'' \<and>
   mobilePhoneValue (patients (repo (runRows fixedEnv e164 (initialState examplePatients)
      [sheetRow ''01-05-2025'' ''3171044203920001'' ''081234567892'',
       sheetRow ''31-04-2025'' ''3171044203920001'' ''081234567891''])) ! 0) = Some ''+6281234567891'' \<and>
   findByNik (InMemoryPatientRepository [twoIdentifierPatient]) ''1111111111111111'' = Some 0 \<and>
   canonical (normalise e164 ''081234567892'') = Some ''+6281234567892'' \<and>
   mobilePhoneValue (patients (repo (runRows fixedEnv e164 (initialState [twoIdentifierPatient])
      [sheetRow ''22-09-2025'' ''1111111111111111'' ''081234567891'',
       sheetRow ''23-09-2025'' ''1111111111111111'' ''081234567892'',
       sheetRow ''24-09-2025'' ''2222222222222222'' ''081234567893''])) ! 0) = Some ''+6281234567893''"
proof -
  let ?a = "sheetRow ''31-04-2025'' ''3171044203920001'' ''081234567891''"
  let ?b = "sheetRow ''01-05-2025'' ''3171044203920001'' ''081234567892''"
  let ?q1 = "sheetRow ''22-09-2025'' ''1111111111111111'' ''081234567891''"
  let ?q2 = "sheetRow ''23-09-2025'' ''1111111111111111'' ''081234567892''"
  let ?q3 = "sheetRow ''24-09-2025'' ''2222222222222222'' ''081234567893''"
  have m: "matchDate ''31-04-2025'' = Some (''31'', ''04'', ''2025'')"
    "matchDate ''01-05-2025'' = Some (''01'', ''05'', ''2025'')"
    by (simp_all add: matchDate_def isDateSep_def isDigit_def)
  have k: "parseDate (lastUpdatedDate ?a) = 1746057600000" "parseDate (lastUpdatedDate ?b) = 1746057600000"
    "parseDate (lastUpdatedDate ?q1) = 1758499200000" "parseDate (lastUpdatedDate ?q2) = 1758585600000"
    "parseDate (lastUpdatedDate ?q3) = 1758672000000"
    by (simp_all add: sheetRow_def parseDate_31_04_2025 parseDate_01_05_2025 parseDate_22_09_2025
        parseDate_23_09_2025 parseDate_24_09_2025)
  have s: "sortRows [?a, ?b] = [?a] @ [?b]" "sortRows [?b, ?a] = [?b] @ [?a]"
    "sortRows [?q1, ?q2, ?q3] = [?q1, ?q2] @ [?q3]"
    unfolding sortRows_def by (simp_all add: k)
  have f: "findByNik (InMemoryPatientRepository examplePatients) (nik ?a) = Some 0"
    "findByNik (InMemoryPatientRepository examplePatients) (nik ?b) = Some 0"
    "findByNik (InMemoryPatientRepository [twoIdentifierPatient]) (nik ?q3) = Some 0"
    by (simp_all add: sheetRow_def example_findByNik twoIdentifier_findByNik)
  have v: "valid (normalise e164 (rawPhone ?a))" "valid (normalise e164 (rawPhone ?b))"
    "valid (normalise e164 (rawPhone ?q3))"
    by (simp_all add: sheetRow_def example_more_phones)
  have c: "canonical (normalise e164 (rawPhone ?a)) = Some ''+6281234567891''"
    "canonical (normalise e164 (rawPhone ?b)) = Some ''+6281234567892''"
    "canonical (normalise e164 (rawPhone ?q3)) = Some ''+6281234567893''"
    by (simp_all add: sheetRow_def example_more_phones)
  have 1: "mobilePhoneValue (patients (repo (runRows fixedEnv e164 (initialState examplePatients) [?a, ?b])) ! 0) =
      Some ''+6281234567892''"
    using runRows_last[OF s(1) f(2) v(2), of fixedEnv] by (simp only: c)
  have 2: "mobilePhoneValue (patients (repo (runRows fixedEnv e164 (initialState examplePatients) [?b, ?a])) ! 0) =
      Some ''+6281234567891''"
    using runRows_last[OF s(2) f(1) v(1), of fixedEnv] by (simp only: c)
  have 3: "mobilePhoneValue (patients (repo (runRows fixedEnv e164 (initialState [twoIdentifierPatient])
      [?q1, ?q2, ?q3])) ! 0) = Some ''+6281234567893''"
    using runRows_last[OF s(3) f(3) v(3), of fixedEnv] by (simp only: c)
  from m 1 2 3 twoIdentifier_findByNik(1) example_more_phones(4) show ?thesis
    by (intro conjI)
qed

end
